theory Spec2Isabelle
  imports Complex_Main "HOL-Library.Word" "HOL-Library.Log_Nat"
begin

section \<open>Double-precision values\<close>

text \<open>
  The sketch keeps its measurements in C++ \<open>double\<close> variables. A value is a finite
  binary64 number (kept as the rational it denotes), an infinity or a NaN. Every
  arithmetic operation computes the exact rational result and rounds it to the nearest
  binary64 value, ties to even, as IEEE 754 prescribes. The sign of zero is not
  represented: the sketch never produces a negative number.
\<close>

datatype double = Fin rat | PInf | NInf | NaN

text \<open>The binary exponent of a positive rational: \<open>2 powi ilog2 x \<le> x < 2 powi (ilog2 x + 1)\<close>.\<close>

definition ilog2 :: "rat \<Rightarrow> int" where
  "ilog2 x = (case quotient_of x of (p, q) \<Rightarrow>
     let k = bitlen p - bitlen q in if 2 powi k \<le> x then k else k - 1)"

text \<open>Rounding to the nearest integer, ties to the even one.\<close>

definition rne :: "rat \<Rightarrow> int" where
  "rne m = (let f = \<lfloor>m\<rfloor>; r = m - of_int f
            in if r < 1 / 2 then f else if 1 / 2 < r then f + 1
               else if even f then f else f + 1)"

text \<open>
  Rounding a positive rational to 53 significant bits; below the normal range the
  spacing is that of the smallest normal exponent (gradual underflow).
\<close>

definition b64_mag :: "rat \<Rightarrow> rat" where
  "b64_mag x = (let e = max (ilog2 x) (- 1022); u = 2 powi (e - 52)
                in of_int (rne (x / u)) * u)"

definition b64 :: "rat \<Rightarrow> double" where
  "b64 x = (if x = 0 then Fin 0
            else let y = b64_mag \<bar>x\<bar>
                 in if 2 ^ 1024 \<le> y then (if 0 < x then PInf else NInf)
                    else Fin (if 0 < x then y else - y))"

fun dneg :: "double \<Rightarrow> double" where
  "dneg (Fin a) = Fin (- a)"
| "dneg PInf = NInf"
| "dneg NInf = PInf"
| "dneg NaN = NaN"

fun dadd :: "double \<Rightarrow> double \<Rightarrow> double" where
  "dadd NaN y = NaN"
| "dadd x NaN = NaN"
| "dadd (Fin a) (Fin b) = b64 (a + b)"
| "dadd (Fin a) y = y"
| "dadd x (Fin b) = x"
| "dadd x y = (if x = y then x else NaN)"

fun dmul :: "double \<Rightarrow> double \<Rightarrow> double" where
  "dmul NaN y = NaN"
| "dmul x NaN = NaN"
| "dmul (Fin a) (Fin b) = b64 (a * b)"
| "dmul (Fin a) y = (if a = 0 then NaN else if 0 < a then y else dneg y)"
| "dmul x (Fin b) = (if b = 0 then NaN else if 0 < b then x else dneg x)"
| "dmul x y = (if x = y then PInf else NInf)"

fun ddiv :: "double \<Rightarrow> double \<Rightarrow> double" where
  "ddiv NaN y = NaN"
| "ddiv x NaN = NaN"
| "ddiv (Fin a) (Fin b) =
     (if b = 0 then (if a = 0 then NaN else if 0 < a then PInf else NInf)
      else b64 (a / b))"
| "ddiv (Fin a) y = Fin 0"
| "ddiv x (Fin b) = (if 0 \<le> b then x else dneg x)"
| "ddiv x y = NaN"

fun dle :: "double \<Rightarrow> double \<Rightarrow> bool" where
  "dle NaN y = False"
| "dle x NaN = False"
| "dle (Fin a) (Fin b) = (a \<le> b)"
| "dle NInf y = True"
| "dle x PInf = True"
| "dle x y = False"

fun dlt :: "double \<Rightarrow> double \<Rightarrow> bool" where
  "dlt NaN y = False"
| "dlt x NaN = False"
| "dlt (Fin a) (Fin b) = (a < b)"
| "dlt PInf y = False"
| "dlt x NInf = False"
| "dlt x y = True"

text \<open>Conversion of a 32-bit unsigned integer to \<open>double\<close> is exact.\<close>

definition of_u32 :: "32 word \<Rightarrow> double" where
  "of_u32 w = Fin (of_nat (unat w))"

text \<open>A finite value that rounding leaves alone is a binary64 number.\<close>

fun is_b64 :: "double \<Rightarrow> bool" where
  "is_b64 (Fin a) = (b64 a = Fin a)"
| "is_b64 x = True"

section \<open>Constants of the sketch\<close>

definition HOUR :: double where
  "HOUR = Fin 3600"

definition PULSES_KWH_RES :: double where
  "PULSES_KWH_RES = Fin 1"

definition SECOND_ISR_PERIOD :: double where
  "SECOND_ISR_PERIOD = b64 (9 / 100)"

definition MAX_POWER :: double where
  "MAX_POWER = Fin 7040"

definition uiUpdate :: "32 word" where
  "uiUpdate = 60"

definition power_topic :: string where
  "power_topic = ''sensors/pulseenergymonitor/watts''"

definition kWh_topic :: string where
  "kWh_topic = ''sensors/pulseenergymonitor/kWh''"

section \<open>Global state\<close>

text \<open>
  The globals of the sketch. \<open>unsigned long\<close> and \<open>unsigned int\<close> are 32 bits wide
  on the ESP32; their arithmetic wraps.
\<close>

record state =
  ulPreviousMillis :: "32 word"
  ulCurrentMillis :: "32 word"
  dPulsePeriod :: double
  dPower :: double
  ulStartTime :: "32 word"
  dKWh :: double
  uiIsrCount :: "32 word"
  dTotalW :: double

definition init_state :: state where
  "init_state = \<lparr>ulPreviousMillis = 0, ulCurrentMillis = 0, dPulsePeriod = Fin 0,
     dPower = Fin 0, ulStartTime = 0, dKWh = Fin 0, uiIsrCount = 0, dTotalW = Fin 0\<rparr>"

section \<open>The interrupt routine\<close>

text \<open>\<open>isr now s\<close>: one run of the handler when \<open>millis()\<close> returns \<open>now\<close>.\<close>

definition isr :: "32 word \<Rightarrow> state \<Rightarrow> state" where
  "isr now s =
    (let s1 = s\<lparr>dPulsePeriod := ddiv (of_u32 (now - ulStartTime s)) (Fin 1000)\<rparr>
     in if dle (dPulsePeriod s1) SECOND_ISR_PERIOD
        then s1\<lparr>dPulsePeriod := Fin 0\<rparr>
        else
          let s2 = s1\<lparr>uiIsrCount := uiIsrCount s1 + 1\<rparr>;
              s3 = s2\<lparr>dPower := dmul (ddiv PULSES_KWH_RES (dPulsePeriod s2)) HOUR\<rparr>;
              s4 = (if dlt MAX_POWER (dPower s3) then s3\<lparr>dPower := Fin 0\<rparr> else s3);
              s5 = s4\<lparr>dTotalW := dadd (dTotalW s4) (dPower s4)\<rparr>
          in s5\<lparr>dKWh := dadd (dKWh s5)
                  (dmul (ddiv (dPulsePeriod s5) HOUR) (ddiv (dPower s5) (Fin 1000)))\<rparr>)"

section \<open>The command callback\<close>

text \<open>
  \<open>ESP.restart()\<close> does not return: the outcome of a callback is either the state it
  leaves or a restart. The payload is a C pointer, read at index 0 whatever the length.
\<close>

datatype outcome = Running state | Restarted

definition callback :: "string \<Rightarrow> (nat \<Rightarrow> 8 word) \<Rightarrow> nat \<Rightarrow> state \<Rightarrow> outcome" where
  "callback topic payload len s =
    (if payload 0 = 0x63 then Running (s\<lparr>dKWh := Fin 0\<rparr>)
     else if payload 0 = 0x72 then Restarted
     else Running s)"

section \<open>Initialisation\<close>

text \<open>
  The effect of \<open>setup()\<close> on the globals, with \<open>millis()\<close> returning \<open>now\<close>; the
  network, broker and update set-up do not touch them.
\<close>

definition setup_init :: "32 word \<Rightarrow> state \<Rightarrow> state" where
  "setup_init now s = (let s1 = s\<lparr>ulStartTime := now\<rparr> in s1\<lparr>ulPreviousMillis := ulStartTime s1\<rparr>)"

section \<open>The main loop\<close>

text \<open>
  The timing and reporting part of \<open>loop()\<close>, with \<open>millis()\<close> returning \<open>now\<close>: it
  returns the messages handed to \<open>client.publish\<close> (the topic and the value that is
  formatted into the payload) and the new state. The other parts of an iteration are
  steps of their own: a message delivered by \<open>client.loop()\<close> is a \<open>callback\<close>, and the
  reconnection at the end of the iteration runs \<open>setup()\<close> again, which is
  \<open>setup_init\<close>.
\<close>

type_synonym pub = "string \<times> double"

definition loop :: "32 word \<Rightarrow> state \<Rightarrow> pub list \<times> state" where
  "loop now s =
    (let s1 = s\<lparr>ulCurrentMillis := now\<rparr>
     in if uiUpdate * 1000 \<le> ulCurrentMillis s1 - ulPreviousMillis s1
        then
          let s2 = s1\<lparr>ulPreviousMillis := ulCurrentMillis s1\<rparr>;
              s3 = s2\<lparr>dPower := ddiv (dTotalW s2) (of_u32 (uiIsrCount s2))\<rparr>;
              out = [(power_topic, dPower s3), (kWh_topic, dKWh s3)];
              s4 = s3\<lparr>dPower := Fin 0\<rparr>;
              s5 = s4\<lparr>dTotalW := Fin 0\<rparr>;
              s6 = s5\<lparr>uiIsrCount := 0\<rparr>
          in (out, s6\<lparr>dKWh := Fin 0\<rparr>)
        else ([], s1))"

section \<open>Quantities the handler computes\<close>

text \<open>
  The interval the handler measures (the right-hand side of its first assignment) and
  the power it derives from an interval, before the plausibility test.
\<close>

abbreviation interval :: "32 word \<Rightarrow> state \<Rightarrow> double" where
  "interval now s \<equiv> ddiv (of_u32 (now - ulStartTime s)) (Fin 1000)"

abbreviation raw_power :: "double \<Rightarrow> double" where
  "raw_power i \<equiv> dmul (ddiv PULSES_KWH_RES i) HOUR"

section \<open>The accumulator invariant\<close>

definition acc_inv :: "state \<Rightarrow> bool" where
  "acc_inv s = (0 \<le> uiIsrCount s \<and> dle (Fin 0) (dTotalW s) \<and> dle (Fin 0) (dKWh s))"

section \<open>Well-formed states\<close>

text \<open>Every \<open>double\<close> variable holds a binary64 number.\<close>

definition state_wf :: "state \<Rightarrow> bool" where
  "state_wf s = (is_b64 (dPulsePeriod s) \<and> is_b64 (dPower s) \<and> is_b64 (dKWh s) \<and> is_b64 (dTotalW s))"

section \<open>The report as a sequence of statements\<close>

text \<open>
  The body of the reporting branch of \<open>loop()\<close>, one constructor per statement in
  source order. The sketch never masks interrupts, so the handler can run between any
  two of them: \<open>report_preempted k t\<close> runs the first \<open>k\<close> statements, then the handler
  with \<open>millis()\<close> returning \<open>t\<close>, then the remaining statements. The handler itself
  runs to completion: the loop cannot interrupt it.
\<close>

datatype report_stmt =
  SetPrevious | Average | PublishPower | PublishKWh | ClearPower | ClearTotal | ClearCount | ClearKWh

fun exec_stmt :: "report_stmt \<Rightarrow> pub list \<times> state \<Rightarrow> pub list \<times> state" where
  "exec_stmt SetPrevious (out, s) = (out, s\<lparr>ulPreviousMillis := ulCurrentMillis s\<rparr>)"
| "exec_stmt Average (out, s) = (out, s\<lparr>dPower := ddiv (dTotalW s) (of_u32 (uiIsrCount s))\<rparr>)"
| "exec_stmt PublishPower (out, s) = (out @ [(power_topic, dPower s)], s)"
| "exec_stmt PublishKWh (out, s) = (out @ [(kWh_topic, dKWh s)], s)"
| "exec_stmt ClearPower (out, s) = (out, s\<lparr>dPower := Fin 0\<rparr>)"
| "exec_stmt ClearTotal (out, s) = (out, s\<lparr>dTotalW := Fin 0\<rparr>)"
| "exec_stmt ClearCount (out, s) = (out, s\<lparr>uiIsrCount := 0\<rparr>)"
| "exec_stmt ClearKWh (out, s) = (out, s\<lparr>dKWh := Fin 0\<rparr>)"

definition report_stmts :: "report_stmt list" where
  "report_stmts =
     [SetPrevious, Average, PublishPower, PublishKWh, ClearPower, ClearTotal, ClearCount, ClearKWh]"

definition report :: "state \<Rightarrow> pub list \<times> state" where
  "report s = fold exec_stmt report_stmts ([], s)"

definition report_preempted :: "nat \<Rightarrow> 32 word \<Rightarrow> state \<Rightarrow> pub list \<times> state" where
  "report_preempted k t s =
     (case fold exec_stmt (take k report_stmts) ([], s) of
        (out, s') \<Rightarrow> fold exec_stmt (drop k report_stmts) (out, isr t s'))"

definition handler_then_report :: "32 word \<Rightarrow> state \<Rightarrow> pub list \<times> state" where
  "handler_then_report t s = report (isr t s)"

definition report_then_handler :: "32 word \<Rightarrow> state \<Rightarrow> pub list \<times> state" where
  "report_then_handler t s = (case report s of (out, s') \<Rightarrow> (out, isr t s'))"

definition drain_atomic :: "nat \<Rightarrow> 32 word \<Rightarrow> state \<Rightarrow> bool" where
  "drain_atomic k t s =
     (report_preempted k t s = handler_then_report t s \<or>
      report_preempted k t s = report_then_handler t s)"

text \<open>
  The state in \<open>loop()\<close> at the window test when \<open>setup()\<close> ran at time 0 and the
  first iteration reads \<open>millis()\<close> = 64000 (the network took 64 s to come up).
\<close>

definition boundary_state :: state where
  "boundary_state = (setup_init 0 init_state)\<lparr>ulCurrentMillis := 64000\<rparr>"

text \<open>
  States with samples in the window: \<open>setup()\<close> at time 0 and an accepted edge at
  1000 ms (\<open>one_pulse\<close>); a second edge in the same millisecond (\<open>two_pulses\<close>); and
  \<open>one_pulse\<close> inside \<open>loop()\<close> at the window test when \<open>millis()\<close> returns 64000
  (\<open>sampled_state\<close>).
\<close>

definition one_pulse :: state where
  "one_pulse = isr 1000 (setup_init 0 init_state)"

definition two_pulses :: state where
  "two_pulses = isr 1000 one_pulse"

definition sampled_state :: state where
  "sampled_state = one_pulse\<lparr>ulCurrentMillis := 64000\<rparr>"

section \<open>Measuring rounding error\<close>

text \<open>
  \<open>u53\<close> is the unit roundoff of binary64. \<open>near j y x\<close>: \<open>y\<close> is \<open>x\<close> after at most \<open>j\<close>
  roundings. \<open>rng k x\<close>: \<open>x\<close> lies between \<open>2 powi (- k)\<close> and \<open>2 powi k\<close>.
\<close>

definition u53 :: rat where
  "u53 = 2 powi (- 53)"

definition near :: "nat \<Rightarrow> rat \<Rightarrow> rat \<Rightarrow> bool" where
  "near j y x = (x * (1 - u53) ^ j \<le> y \<and> y \<le> x * (1 + u53) ^ j)"

definition rng :: "int \<Rightarrow> rat \<Rightarrow> bool" where
  "rng k x = (2 powi (- k) \<le> x \<and> x \<le> 2 powi k)"

section \<open>Facts about rounding\<close>

lemma bitlen_bounds_rat:
  assumes "0 < p"
  shows "(2::rat) powi (bitlen p - 1) \<le> of_int p" "of_int p < (2::rat) powi (bitlen p)"
proof -
  from assms have b1: "1 \<le> bitlen p" by (auto simp: bitlen_alt_def)
  from bitlen_bounds[OF assms] have l: "2 ^ nat (bitlen p - 1) \<le> p" and u: "p < 2 ^ nat (bitlen p)"
    by auto
  have "(of_int (2 ^ nat (bitlen p - 1)) :: rat) \<le> of_int p" using l by (simp only: of_int_le_iff)
  then show "(2::rat) powi (bitlen p - 1) \<le> of_int p" using b1 by (simp add: power_int_def)
  have "(of_int p :: rat) < of_int (2 ^ nat (bitlen p))" using u by (simp only: of_int_less_iff)
  then show "of_int p < (2::rat) powi (bitlen p)" using b1 by (simp add: power_int_def)
qed

lemma powi2_pos: "0 < (2::rat) powi e"
  by (simp add: power_int_def)

lemma powi2_Suc: "(2::rat) powi (e + 1) = 2 * 2 powi e"
  by (simp add: power_int_add)

lemma powi2_mono: "a \<le> b \<Longrightarrow> (2::rat) powi a \<le> 2 powi b"
  by (rule power_int_increasing) simp_all

lemma powi2_strict_mono: "a < b \<Longrightarrow> (2::rat) powi a < 2 powi b"
  by (rule power_int_strict_increasing) simp_all

lemma ilog2_bounds:
  assumes "0 < x"
  shows "2 powi (ilog2 x) \<le> x \<and> x < 2 powi (ilog2 x + 1)"
proof -
  obtain p q where pq: "quotient_of x = (p, q)" by (cases "quotient_of x")
  then have q: "0 < q" by (rule quotient_of_denom_pos)
  have x: "x = of_int p / of_int q" using pq by (rule quotient_of_div)
  with assms q have p: "0 < p" by (simp add: zero_less_divide_iff)
  define k where "k = bitlen p - bitlen q"
  have qpos: "(0::rat) < of_int q" using q by simp
  have "x * of_int q = of_int p" using x qpos by simp
  have up: "x < 2 powi (k + 1)"
  proof -
    have "of_int p < (2::rat) powi (bitlen p)" by (rule bitlen_bounds_rat[OF p])
    also have "\<dots> = 2 powi (k + 1) * 2 powi (bitlen q - 1)"
      by (simp add: k_def flip: power_int_add)
    also have "\<dots> \<le> 2 powi (k + 1) * of_int q"
      using bitlen_bounds_rat(1)[OF q] powi2_pos[of "k + 1"] by simp
    finally show ?thesis using qpos by (simp add: x pos_divide_less_eq)
  qed
  have lo: "2 powi (k - 1) \<le> x"
  proof -
    have "2 powi (k - 1) * of_int q \<le> 2 powi (k - 1) * (2::rat) powi (bitlen q)"
      using bitlen_bounds_rat(2)[OF q] powi2_pos[of "k - 1"] by simp
    also have "\<dots> = 2 powi (bitlen p - 1)"
      by (simp add: k_def flip: power_int_add)
    also have "\<dots> \<le> of_int p" by (rule bitlen_bounds_rat[OF p])
    finally show ?thesis using qpos by (simp add: x pos_le_divide_eq)
  qed
  show ?thesis
  proof (cases "2 powi k \<le> x")
    case True
    then have "ilog2 x = k" by (simp add: ilog2_def pq k_def)
    with True up show ?thesis by simp
  next
    case False
    then have "ilog2 x = k - 1" by (simp add: ilog2_def pq k_def)
    with False lo show ?thesis by simp
  qed
qed

lemma ilog2_eq:
  assumes "2 powi e \<le> x" "x < 2 powi (e + 1)"
  shows "ilog2 x = e"
proof -
  have "0 < x" using powi2_pos[of e] assms(1) by (rule less_le_trans)
  from ilog2_bounds[OF this] have b: "2 powi (ilog2 x) \<le> x" "x < 2 powi (ilog2 x + 1)" by auto
  have "\<not> e + 1 \<le> ilog2 x"
  proof
    assume "e + 1 \<le> ilog2 x"
    then have "(2::rat) powi (e + 1) \<le> 2 powi (ilog2 x)" by (rule powi2_mono)
    with b(1) assms(2) show False by simp
  qed
  moreover have "\<not> ilog2 x + 1 \<le> e"
  proof
    assume "ilog2 x + 1 \<le> e"
    then have "(2::rat) powi (ilog2 x + 1) \<le> 2 powi e" by (rule powi2_mono)
    with b(2) assms(1) show False by simp
  qed
  ultimately show ?thesis by simp
qed

lemma rne_error: "\<bar>of_int (rne m) - m\<bar> \<le> 1 / 2"
proof -
  have f: "of_int \<lfloor>m\<rfloor> \<le> m" "m < of_int \<lfloor>m\<rfloor> + 1" by linarith+
  show ?thesis
  proof (cases "m - of_int \<lfloor>m\<rfloor> < 1 / 2")
    case True
    then have "rne m = \<lfloor>m\<rfloor>" by (simp add: rne_def)
    with True f show ?thesis by (simp add: abs_le_iff)
  next
    case False
    note nl = this
    show ?thesis
    proof (cases "1 / 2 < m - of_int \<lfloor>m\<rfloor>")
      case True
      then have "rne m = \<lfloor>m\<rfloor> + 1" using nl by (simp add: rne_def Let_def)
      with True f show ?thesis by (simp add: abs_le_iff)
    next
      case False
      with nl have h: "m - of_int \<lfloor>m\<rfloor> = 1 / 2" by simp
      have "rne m = \<lfloor>m\<rfloor> \<or> rne m = \<lfloor>m\<rfloor> + 1" by (simp add: rne_def Let_def)
      then show ?thesis using h by (auto simp: abs_le_iff)
    qed
  qed
qed

lemma rne_eq:
  assumes "\<bar>m - of_int n\<bar> < 1 / 2"
  shows "rne m = n"
proof -
  have b: "of_int n - 1 / 2 < m" "m < of_int n + 1 / 2" using assms by linarith+
  show ?thesis
  proof (cases "of_int n \<le> m")
    case True
    have "\<lfloor>m\<rfloor> = n" using True b(2) by (intro floor_unique) auto
    then show ?thesis using b(2) by (simp add: rne_def)
  next
    case False
    have f: "\<lfloor>m\<rfloor> = n - 1" using False b(1) by (intro floor_unique) auto
    have "1 / 2 < m - of_int (n - 1)" using b(1) by simp
    then show ?thesis by (simp add: rne_def f Let_def)
  qed
qed

lemma rne_nonneg: "0 \<le> m \<Longrightarrow> 0 \<le> rne m"
  by (auto simp: rne_def Let_def)

lemma b64_zero: "b64 0 = Fin 0"
  by (simp add: b64_def)

lemma b64_mag_nonneg: "0 \<le> x \<Longrightarrow> 0 \<le> b64_mag x"
  by (simp add: b64_mag_def Let_def rne_nonneg powi2_pos less_imp_le)

lemma b64_nonneg: "0 \<le> x \<Longrightarrow> dle (Fin 0) (b64 x)"
  using b64_mag_nonneg[of x] by (simp add: b64_def Let_def)

lemma b64_mag_normal:
  assumes "2 powi e \<le> x" "x < 2 powi (e + 1)" "- 1022 \<le> e"
  shows "b64_mag x = of_int (rne (x / 2 powi (e - 52))) * 2 powi (e - 52)"
  using assms by (simp add: b64_mag_def Let_def ilog2_eq[OF assms(1,2)] max_def)

lemma b64_mag_error:
  assumes "2 powi e \<le> x" "x < 2 powi (e + 1)" "- 1022 \<le> e"
  shows "\<bar>b64_mag x - x\<bar> \<le> x * 2 powi (- 53)"
proof -
  define u :: rat where "u = 2 powi (e - 52)"
  define n :: rat where "n = of_int (rne (x / u))"
  define eps :: rat where "eps = 2 powi (- 53)"
  have u: "0 < u" by (simp add: u_def powi2_pos)
  have eps: "0 < eps" by (simp add: eps_def powi2_pos)
  have "n * u - x = (n - x / u) * u"
    using u by (simp add: left_diff_distrib)
  then have "\<bar>n * u - x\<bar> = \<bar>n - x / u\<bar> * u"
    using u by (simp add: abs_mult)
  also have "\<dots> \<le> 1 / 2 * u"
    using rne_error[of "x / u"] u unfolding n_def by (intro mult_right_mono) simp_all
  also have "1 / 2 * u = 2 powi (e - 53)"
    using powi2_Suc[of "e - 53"] by (simp add: u_def)
  also have "\<dots> = 2 powi e * eps"
    using power_int_add[of "2::rat" e "- 53"] by (simp add: eps_def)
  also have "\<dots> \<le> x * eps"
    using assms(1) eps by (intro mult_right_mono) simp_all
  finally have "\<bar>n * u - x\<bar> \<le> x * eps" .
  then show ?thesis
    unfolding n_def u_def eps_def by (simp only: b64_mag_normal[OF assms])
qed

lemma b64_normal:
  assumes "2 powi (- 1022) \<le> x" "x < 2 powi 1023"
  obtains y where "b64 x = Fin y" "\<bar>y - x\<bar> \<le> x * 2 powi (- 53)"
proof -
  define eps :: rat where "eps = 2 powi (- 53)"
  have xp: "0 < x" using powi2_pos[of "- 1022"] assms(1) by (rule less_le_trans)
  from ilog2_bounds[OF xp] have b: "2 powi (ilog2 x) \<le> x" "x < 2 powi (ilog2 x + 1)" by auto
  have lo: "- 1022 \<le> ilog2 x"
  proof (rule ccontr)
    assume "\<not> - 1022 \<le> ilog2 x"
    then have "ilog2 x + 1 \<le> - 1022" by simp
    then have "(2::rat) powi (ilog2 x + 1) \<le> 2 powi (- 1022)" by (rule powi2_mono)
    with b(2) assms(1) show False by simp
  qed
  have err: "\<bar>b64_mag x - x\<bar> \<le> x * eps"
    unfolding eps_def by (rule b64_mag_error[OF b lo])
  have "eps \<le> 2 powi 0" unfolding eps_def by (rule powi2_mono) simp
  then have "x * eps \<le> x * 1" using xp by (intro mult_left_mono) simp_all
  with err have "b64_mag x \<le> 2 * x" by linarith
  also have "\<dots> < 2 * 2 powi 1023" using assms(2) by simp
  also have "\<dots> = 2 ^ 1024" by simp
  finally have "b64_mag x < 2 ^ 1024" .
  then have "b64 x = Fin (b64_mag x)" using xp by (simp add: b64_def Let_def)
  moreover have "\<bar>b64_mag x - x\<bar> \<le> x * 2 powi (- 53)" using err by (simp only: eps_def)
  ultimately show ?thesis by (rule that)
qed

lemma b64_eval:
  assumes "2 powi e \<le> x" "x < 2 powi (e + 1)" "- 1022 \<le> e" "e \<le> 1022"
    and "\<bar>x / 2 powi (e - 52) - of_int n\<bar> < 1 / 2"
  shows "b64 x = Fin (of_int n * 2 powi (e - 52))"
proof -
  have xp: "0 < x" using powi2_pos[of e] assms(1) by (rule less_le_trans)
  have m: "b64_mag x = of_int n * 2 powi (e - 52)"
    by (simp add: b64_mag_normal[OF assms(1,2,3)] rne_eq[OF assms(5)])
  have "(2::rat) powi (e + 1) \<le> 2 powi 1023" using assms(4) by (intro powi2_mono) simp
  with assms(2) have hi: "x < 2 powi 1023" by simp
  have "(2::rat) powi (- 1022) \<le> 2 powi e" using assms(3) by (intro powi2_mono)
  with assms(1) have lo: "2 powi (- 1022) \<le> x" by simp
  obtain y where y: "b64 x = Fin y" by (rule b64_normal[OF lo hi])
  then have "y = b64_mag x" using xp by (simp add: b64_def Let_def split: if_splits)
  with y m show ?thesis by simp
qed

lemma b64_mag_upper:
  assumes "0 < x"
  shows "b64_mag x \<le> x + 2 powi (max (ilog2 x) (- 1022) - 53)"
proof -
  define u :: rat where "u = 2 powi (max (ilog2 x) (- 1022) - 52)"
  have u: "0 < u" by (simp add: u_def powi2_pos)
  have "of_int (rne (x / u)) \<le> x / u + 1 / 2"
    using rne_error[of "x / u"] by linarith
  then have "of_int (rne (x / u)) * u \<le> (x / u + 1 / 2) * u"
    using u by (intro mult_right_mono) simp_all
  also have "\<dots> = x + 1 / 2 * u" using u by (simp add: distrib_right)
  also have "1 / 2 * u = 2 powi (max (ilog2 x) (- 1022) - 53)"
    using powi2_Suc[of "max (ilog2 x) (- 1022) - 53"] by (simp add: u_def)
  finally show ?thesis by (simp add: b64_mag_def Let_def u_def)
qed

lemma b64_fin_nonneg:
  assumes "0 \<le> x" "x < 2 powi 1023"
  shows "\<exists>y. b64 x = Fin y \<and> 0 \<le> y \<and> y < 2 powi 1024"
proof (cases "x = 0")
  case True
  then show ?thesis by (simp add: b64_zero)
next
  case False
  with assms(1) have xp: "0 < x" by simp
  from ilog2_bounds[OF xp] have b: "2 powi (ilog2 x) \<le> x" by simp
  have "\<not> 1023 \<le> ilog2 x"
  proof
    assume "1023 \<le> ilog2 x"
    then have "(2::rat) powi 1023 \<le> 2 powi (ilog2 x)" by (rule powi2_mono)
    with b assms(2) show False by simp
  qed
  then have "max (ilog2 x) (- 1022) - 53 \<le> 1022" by simp
  then have "(2::rat) powi (max (ilog2 x) (- 1022) - 53) \<le> 2 powi 1022" by (rule powi2_mono)
  with b64_mag_upper[OF xp] assms(2) have "b64_mag x < 2 powi 1023 + 2 powi 1022" by linarith
  also have "\<dots> \<le> (2::rat) powi 1024" by simp
  finally have m: "b64_mag x < 2 powi 1024" .
  then have "b64 x = Fin (b64_mag x)" using xp by (simp add: b64_def Let_def)
  moreover have "0 \<le> b64_mag x" using xp by (intro b64_mag_nonneg) simp
  ultimately show ?thesis using m by simp
qed

lemma dadd_zero: "is_b64 x \<Longrightarrow> dadd x (Fin 0) = x"
  by (cases x) simp_all

lemma u32_rat_bounds: "(0::rat) \<le> of_nat (unat (w::32 word))" "(of_nat (unat (w::32 word)) :: rat) < 2 ^ 32"
proof -
  show "(0::rat) \<le> of_nat (unat w)" by (rule of_nat_0_le_iff)
  have "unat w < 2 ^ 32" using unsigned_less[of w, where 'a = nat] by simp
  then have "(of_nat (unat w) :: rat) < of_nat (2 ^ 32)" by (simp only: of_nat_less_iff)
  then show "(of_nat (unat w) :: rat) < 2 ^ 32" by simp
qed

lemma period_fin:
  "\<exists>y. ddiv (of_u32 w) (Fin 1000) = Fin y \<and> 0 \<le> y \<and> y < 2 powi 1024"
proof -
  define n :: rat where "n = of_nat (unat w)"
  have n: "0 \<le> n" "n < 2 ^ 32" unfolding n_def by (rule u32_rat_bounds)+
  then have "0 \<le> n / 1000" "n / 1000 < 2 powi 1023" by simp_all
  then have "\<exists>y. b64 (n / 1000) = Fin y \<and> 0 \<le> y \<and> y < 2 powi 1024" by (rule b64_fin_nonneg)
  moreover have "ddiv (of_u32 w) (Fin 1000) = b64 (n / 1000)"
    unfolding of_u32_def n_def by simp
  ultimately show ?thesis by simp
qed

lemma energy_of_zero_power:
  "dmul (ddiv (ddiv (of_u32 w) (Fin 1000)) HOUR) (ddiv (Fin 0) (Fin 1000)) = Fin 0"
proof -
  obtain y where y: "ddiv (of_u32 w) (Fin 1000) = Fin y" "0 \<le> y" "y < 2 powi 1024"
    using period_fin[of w] by blast
  have "0 \<le> y / 3600" "y / 3600 < 2 powi 1023" using y(2,3) by simp_all
  then obtain z where "b64 (y / 3600) = Fin z" using b64_fin_nonneg by blast
  then show ?thesis by (simp add: y(1) HOUR_def b64_zero)
qed

section \<open>Rounding is idempotent\<close>

lemma rne_of_int: "rne (of_int k) = k"
  using rne_eq[of "of_int k" k] by simp

lemma rne_zero: "rne 0 = 0"
  using rne_of_int[of 0] by simp

lemma b64_mag_zero: "b64_mag 0 = 0"
  by (simp add: b64_mag_def Let_def rne_zero)

lemma ilog2_less:
  assumes "0 < y" "y < 2 powi k"
  shows "ilog2 y < k"
proof (rule ccontr)
  assume "\<not> ilog2 y < k"
  then have "(2::rat) powi k \<le> 2 powi (ilog2 y)" by (intro powi2_mono) simp
  with ilog2_bounds[OF assms(1)] assms(2) show False by simp
qed

lemma b64_mag_of_multiple:
  assumes "0 < y" "y = of_int n * 2 powi (e - 52)" "max (ilog2 y) (- 1022) \<le> e"
  shows "b64_mag y = y"
proof -
  define e' where "e' = max (ilog2 y) (- 1022)"
  have "(2::rat) powi (e - 52) = 2 powi (e - e') * 2 powi (e' - 52)"
    using power_int_add[of "2::rat" "e - e'" "e' - 52"] by simp
  also have "(2::rat) powi (e - e') = of_int (2 ^ nat (e - e'))"
    using assms(3) by (simp add: e'_def power_int_def)
  finally have u: "(2::rat) powi (e - 52) = of_int (2 ^ nat (e - e')) * 2 powi (e' - 52)" .
  have "y / 2 powi (e' - 52) = of_int (n * 2 ^ nat (e - e'))"
    unfolding assms(2) u using powi2_pos[of "e' - 52"] by simp
  then have "rne (y / 2 powi (e' - 52)) = n * 2 ^ nat (e - e')"
    by (simp only: rne_of_int)
  then have "b64_mag y = of_int (n * 2 ^ nat (e - e')) * 2 powi (e' - 52)"
    by (simp add: b64_mag_def Let_def e'_def)
  also have "\<dots> = y" unfolding assms(2) u by simp
  finally show ?thesis .
qed

lemma powi2_split53: "(2::rat) powi (e + 1) = 2 ^ 53 * 2 powi (e - 52)"
proof -
  have "(2::rat) powi (53 + (e - 52)) = 2 powi 53 * 2 powi (e - 52)"
    by (rule power_int_add) simp
  moreover have "53 + (e - 52) = e + 1" by simp
  ultimately show ?thesis by simp
qed

lemma b64_mag_idem:
  assumes "0 < x"
  shows "b64_mag (b64_mag x) = b64_mag x"
proof -
  define e where "e = max (ilog2 x) (- 1022)"
  define u :: rat where "u = 2 powi (e - 52)"
  define n where "n = rne (x / u)"
  have u: "0 < u" by (simp add: u_def powi2_pos)
  have y: "b64_mag x = of_int n * u"
    by (simp add: b64_mag_def Let_def e_def u_def n_def)
  have "x < 2 powi (ilog2 x + 1)" using ilog2_bounds[OF assms] by simp
  also have "\<dots> \<le> 2 powi (e + 1)" by (intro powi2_mono) (simp add: e_def)
  finally have xe: "x < 2 powi (e + 1)" .
  have "2 powi (e + 1) = 2 ^ 53 * u"
    unfolding u_def by (rule powi2_split53)
  with xe have "x / u < 2 ^ 53" using u by (simp add: pos_divide_less_eq)
  moreover have "of_int n \<le> x / u + 1 / 2"
    using rne_error[of "x / u"] unfolding n_def by linarith
  ultimately have "(of_int n :: rat) < of_int (2 ^ 53 + 1)" by simp
  then have "n < 2 ^ 53 + 1" by (simp only: of_int_less_iff)
  then have n_hi: "n \<le> 2 ^ 53" by simp
  have n_lo: "0 \<le> n" unfolding n_def using assms u by (intro rne_nonneg) simp
  show ?thesis
  proof (cases "n = 0")
    case True
    then show ?thesis by (simp add: y b64_mag_zero)
  next
    case False
    with n_lo have np: "0 < n" by simp
    then have yp: "0 < of_int n * u" using u by simp
    show ?thesis
    proof (cases "n = 2 ^ 53")
      case True
      have v: "of_int n * u = of_int (2 ^ 52) * 2 powi (e + 1 - 52)"
        using powi2_Suc[of "e - 52"] by (simp add: True u_def)
      have p: "of_int n * u = 2 powi (e + 1)"
        by (simp add: True u_def powi2_split53)
      have "ilog2 (of_int n * u) = e + 1"
        unfolding p by (rule ilog2_eq) (simp_all add: powi2_strict_mono)
      then have "max (ilog2 (of_int n * u)) (- 1022) \<le> e + 1" by (simp add: e_def)
      from b64_mag_of_multiple[OF yp v this] show ?thesis by (simp only: y)
    next
      case False
      with n_hi have "n < 2 ^ 53" by simp
      then have "(of_int n :: rat) < of_int (2 ^ 53)" by (simp only: of_int_less_iff)
      then have "of_int n * u < 2 ^ 53 * u" using u by simp
      also have "\<dots> = 2 powi (e + 1)"
        unfolding u_def by (rule powi2_split53[symmetric])
      finally have "ilog2 (of_int n * u) < e + 1" using yp by (intro ilog2_less)
      then have "max (ilog2 (of_int n * u)) (- 1022) \<le> e" by (simp add: e_def)
      from b64_mag_of_multiple[OF yp _ this] show ?thesis by (simp add: y u_def)
    qed
  qed
qed

lemma is_b64_b64: "is_b64 (b64 x)"
proof (cases "x = 0")
  case True
  then show ?thesis by (simp add: b64_zero)
next
  case False
  then have ax: "0 < \<bar>x\<bar>" by simp
  define y where "y = b64_mag \<bar>x\<bar>"
  have idem: "b64_mag y = y" unfolding y_def by (rule b64_mag_idem[OF ax])
  have y0: "0 \<le> y" unfolding y_def by (rule b64_mag_nonneg) simp
  show ?thesis
  proof (cases "2 ^ 1024 \<le> y")
    case True
    then show ?thesis using False by (simp add: b64_def Let_def flip: y_def)
  next
    case big: False
    show ?thesis
    proof (cases "y = 0")
      case True
      then show ?thesis using False big by (simp add: b64_def[of x] Let_def b64_zero flip: y_def)
    next
      case nz: False
      with y0 have yp: "0 < y" by simp
      have "b64 y = Fin y" using yp big idem by (simp add: b64_def[of y] Let_def)
      moreover have "b64 (- y) = Fin (- y)" using yp big idem by (simp add: b64_def[of "- y"] Let_def)
      ultimately show ?thesis using False big by (simp add: b64_def[of x] Let_def flip: y_def)
    qed
  qed
qed

lemma is_b64_dadd: "is_b64 (dadd x y)"
  by (cases x; cases y) (simp_all add: is_b64_b64)

lemma is_b64_dmul: "is_b64 (dmul x y)"
  by (cases x; cases y) (simp_all add: is_b64_b64)

lemma is_b64_ddiv: "is_b64 (ddiv x y)"
  by (cases x; cases y) (simp_all add: is_b64_b64 b64_zero)

text \<open>
  The initial state is well formed, and the handler, the loop, a command and the
  initialisation keep it so.
\<close>

lemma state_wf_init: "state_wf init_state"
  by (simp add: state_wf_def init_state_def b64_zero)

lemma state_wf_isr: "state_wf s \<Longrightarrow> state_wf (isr now s)"
  by (simp add: state_wf_def isr_def Let_def is_b64_dadd is_b64_dmul is_b64_ddiv b64_zero)

lemma state_wf_loop: "state_wf s \<Longrightarrow> state_wf (snd (loop now s))"
  by (simp add: state_wf_def loop_def Let_def b64_zero)

lemma state_wf_callback: "state_wf s \<Longrightarrow> callback topic payload len s = Running s' \<Longrightarrow> state_wf s'"
  by (auto simp: state_wf_def callback_def b64_zero split: if_splits)

lemma state_wf_setup: "state_wf s \<Longrightarrow> state_wf (setup_init now s)"
  by (simp add: state_wf_def setup_init_def Let_def)

section \<open>Ties and upper bounds\<close>

lemma rne_tie:
  assumes "m = of_int f + 1 / 2"
  shows "rne m = (if even f then f else f + 1)"
proof -
  have "\<lfloor>m\<rfloor> = f" unfolding assms by (intro floor_unique) simp_all
  then show ?thesis by (simp add: rne_def assms)
qed

lemma b64_eval_tie:
  assumes "2 powi e \<le> x" "x < 2 powi (e + 1)" "- 1022 \<le> e" "e \<le> 1022"
    and "x / 2 powi (e - 52) = of_int f + 1 / 2"
  shows "b64 x = Fin (of_int (if even f then f else f + 1) * 2 powi (e - 52))"
proof -
  have xp: "0 < x" using powi2_pos[of e] assms(1) by (rule less_le_trans)
  have m: "b64_mag x = of_int (if even f then f else f + 1) * 2 powi (e - 52)"
    by (simp only: b64_mag_normal[OF assms(1,2,3)] rne_tie[OF assms(5)])
  have "(2::rat) powi (e + 1) \<le> 2 powi 1023" using assms(4) by (intro powi2_mono) simp
  with assms(2) have hi: "x < 2 powi 1023" by simp
  have "(2::rat) powi (- 1022) \<le> 2 powi e" using assms(3) by (intro powi2_mono)
  with assms(1) have lo: "2 powi (- 1022) \<le> x" by simp
  obtain y where y: "b64 x = Fin y" by (rule b64_normal[OF lo hi])
  then have "y = b64_mag x" using xp by (simp add: b64_def Let_def split: if_splits)
  with y m show ?thesis by simp
qed

lemma b64_le_pow:
  assumes "0 \<le> x" "x \<le> 2 powi k" "0 \<le> k" "k \<le> 1021"
  shows "\<exists>y. b64 x = Fin y \<and> 0 \<le> y \<and> y \<le> 2 powi (k + 1)"
proof (cases "x = 0")
  case True
  have "(0::rat) \<le> 2 powi (k + 1)" using powi2_pos[of "k + 1"] by simp
  with True show ?thesis by (simp add: b64_zero)
next
  case False
  with assms(1) have xp: "0 < x" by simp
  have "x < 2 powi (k + 1)" using assms(2) powi2_strict_mono[of k "k + 1"] by simp
  then have "ilog2 x < k + 1" using xp by (intro ilog2_less)
  then have "max (ilog2 x) (- 1022) - 53 \<le> k" using assms(3) by simp
  then have "(2::rat) powi (max (ilog2 x) (- 1022) - 53) \<le> 2 powi k" by (rule powi2_mono)
  with b64_mag_upper[OF xp] assms(2) have "b64_mag x \<le> 2 powi k + 2 powi k" by linarith
  then have m: "b64_mag x \<le> 2 powi (k + 1)" by (simp add: powi2_Suc)
  have "(2::rat) powi (k + 1) < 2 powi 1024" using assms(4) by (intro powi2_strict_mono) simp
  with m have "b64_mag x < 2 ^ 1024" by simp
  then have "b64 x = Fin (b64_mag x)" using xp by (simp add: b64_def Let_def)
  moreover have "0 \<le> b64_mag x" using xp by (intro b64_mag_nonneg) simp
  ultimately show ?thesis using m by simp
qed

lemma interval_bound:
  "\<exists>y. interval now s = Fin y \<and> 0 \<le> y \<and> y \<le> 2 powi 24"
proof -
  define n :: rat where "n = of_nat (unat (now - ulStartTime s))"
  have n: "0 \<le> n" "n < 2 ^ 32" unfolding n_def by (rule u32_rat_bounds)+
  then have "0 \<le> n / 1000" "n / 1000 \<le> 2 powi 23" by simp_all
  then have "\<exists>y. b64 (n / 1000) = Fin y \<and> 0 \<le> y \<and> y \<le> 2 powi (23 + 1)"
    by (rule b64_le_pow) simp_all
  moreover have "interval now s = b64 (n / 1000)"
    unfolding of_u32_def n_def by simp
  ultimately show ?thesis by simp
qed

section \<open>Values of the roundings used below\<close>

lemma b64_1: "b64 1 = Fin 1"
  using b64_eval[of 0 1 "2 ^ 52"] by simp

lemma b64_2: "b64 2 = Fin 2"
  using b64_eval[of 1 2 "2 ^ 52"] by simp

lemma b64_half: "b64 (1 / 2) = Fin (1 / 2)"
  using b64_eval[of "- 1" "1 / 2" "2 ^ 52"] by simp

lemma b64_64: "b64 64 = Fin 64"
  using b64_eval[of 6 64 "2 ^ 52"] by simp

lemma b64_1_64: "b64 (1 / 64) = Fin (1 / 64)"
  using b64_eval[of "- 6" "1 / 64" "2 ^ 52"] by simp

lemma b64_225_4: "b64 (225 / 4) = Fin (225 / 4)"
  using b64_eval[of 5 "225 / 4" "225 * 2 ^ 45"] by simp

lemma b64_3600: "b64 3600 = Fin 3600"
  using b64_eval[of 11 3600 "3600 * 2 ^ 41"] by simp

lemma b64_7200: "b64 7200 = Fin 7200"
  using b64_eval[of 12 7200 "7200 * 2 ^ 40"] by simp

lemma b64_9_100: "b64 (9 / 100) = Fin (3242591731706757 / 36028797018963968)"
  using b64_eval[of "- 4" "9 / 100" 6485183463413514] by simp

section \<open>The interrupt routine, field by field\<close>

lemma isr_start: "ulStartTime (isr now s) = ulStartTime s"
  by (simp add: isr_def Let_def)

lemma isr_millis: "ulPreviousMillis (isr now s) = ulPreviousMillis s"
    "ulCurrentMillis (isr now s) = ulCurrentMillis s"
  by (simp_all add: isr_def Let_def)

lemma isr_period:
  "dPulsePeriod (isr now s) =
    (if dle (interval now s) SECOND_ISR_PERIOD then Fin 0 else interval now s)"
  by (simp add: isr_def Let_def)

lemma isr_accepted_fields:
  assumes "\<not> dle (interval now s) SECOND_ISR_PERIOD"
  shows "dPulsePeriod (isr now s) = interval now s"
    and "dPower (isr now s) =
           (if dlt MAX_POWER (raw_power (interval now s)) then Fin 0
            else raw_power (interval now s))"
    and "uiIsrCount (isr now s) = uiIsrCount s + 1"
    and "dTotalW (isr now s) = dadd (dTotalW s) (dPower (isr now s))"
    and "dKWh (isr now s) =
           dadd (dKWh s)
             (dmul (ddiv (interval now s) HOUR) (ddiv (dPower (isr now s)) (Fin 1000)))"
  using assms by (simp_all add: isr_def Let_def)

section \<open>Sign of the accumulated values\<close>

lemma dadd_nonneg: "dle (Fin 0) x \<Longrightarrow> dle (Fin 0) y \<Longrightarrow> dle (Fin 0) (dadd x y)"
  by (cases x; cases y) (simp_all add: b64_nonneg)

lemma raw_power_nonneg:
  assumes "0 \<le> y"
  shows "dle (Fin 0) (raw_power (Fin y))"
proof (cases "y = 0")
  case True
  then show ?thesis by (simp add: PULSES_KWH_RES_def HOUR_def)
next
  case False
  with assms have "0 \<le> 1 / y" by simp
  then have "dle (Fin 0) (b64 (1 / y))" by (rule b64_nonneg)
  then show ?thesis using False
    by (cases "b64 (1 / y)") (simp_all add: PULSES_KWH_RES_def HOUR_def b64_nonneg)
qed

lemma clamp_bounds:
  assumes "dle (Fin 0) p"
  shows "\<exists>a. (if dlt MAX_POWER p then Fin 0 else p) = Fin a \<and> 0 \<le> a \<and> a \<le> 7040"
  using assms by (cases p) (auto simp: MAX_POWER_def)

lemma energy_nonneg:
  assumes "0 \<le> a" "a \<le> 7040"
  shows "dle (Fin 0) (dmul (ddiv (interval now s) HOUR) (ddiv (Fin a) (Fin 1000)))"
proof -
  obtain y where y: "interval now s = Fin y" "0 \<le> y" "y < 2 powi 1024"
    using period_fin[of "now - ulStartTime s"] by blast
  have "0 \<le> y / 3600" "y / 3600 < 2 powi 1023" using y(2,3) by simp_all
  then obtain z where z: "b64 (y / 3600) = Fin z" "0 \<le> z" using b64_fin_nonneg by blast
  have "0 \<le> a / 1000" "a / 1000 < 2 powi 1023" using assms by simp_all
  then obtain w where w: "b64 (a / 1000) = Fin w" "0 \<le> w" using b64_fin_nonneg by blast
  have "dle (Fin 0) (b64 (z * w))" using z(2) w(2) by (intro b64_nonneg) simp
  then show ?thesis by (simp add: y(1) HOUR_def z(1) w(1))
qed

lemma isr_acc_inv:
  assumes "acc_inv s"
  shows "acc_inv (isr now s)"
proof (cases "dle (interval now s) SECOND_ISR_PERIOD")
  case True
  then have "uiIsrCount (isr now s) = uiIsrCount s" "dTotalW (isr now s) = dTotalW s"
    "dKWh (isr now s) = dKWh s"
    by (simp_all add: isr_def Let_def)
  with assms show ?thesis by (simp add: acc_inv_def)
next
  case False
  note f = isr_accepted_fields[OF False]
  obtain y where y: "interval now s = Fin y" "0 \<le> y"
    using period_fin[of "now - ulStartTime s"] by blast
  have "dle (Fin 0) (raw_power (interval now s))"
    unfolding y(1) using y(2) by (rule raw_power_nonneg)
  from clamp_bounds[OF this] obtain a where a: "dPower (isr now s) = Fin a" "0 \<le> a" "a \<le> 7040"
    unfolding f(2) by blast
  have t: "dle (Fin 0) (dTotalW (isr now s))"
    unfolding f(4) a(1) using assms a(2) by (intro dadd_nonneg) (simp_all add: acc_inv_def)
  have k: "dle (Fin 0) (dKWh (isr now s))"
    unfolding f(5) a(1) using assms energy_nonneg[OF a(2,3)]
    by (intro dadd_nonneg) (simp_all add: acc_inv_def)
  from t k show ?thesis by (simp add: acc_inv_def)
qed

lemma addend_fin:
  assumes "0 \<le> a" "a \<le> 7040"
  shows "\<exists>d. dmul (ddiv (interval now s) HOUR) (ddiv (Fin a) (Fin 1000)) = Fin d \<and>
             0 \<le> d \<and> d \<le> 2 powi 30"
proof -
  obtain y where y: "interval now s = Fin y" "0 \<le> y" "y \<le> 2 powi 24"
    using interval_bound[of now s] by blast
  have "0 \<le> y / 3600" "y / 3600 \<le> 2 powi 24" using y(2,3) by simp_all
  then have "\<exists>z. b64 (y / 3600) = Fin z \<and> 0 \<le> z \<and> z \<le> 2 powi (24 + 1)"
    by (rule b64_le_pow) simp_all
  then obtain z where z: "b64 (y / 3600) = Fin z" "0 \<le> z" "z \<le> 2 powi 25" by auto
  have "0 \<le> a / 1000" "a / 1000 \<le> 2 powi 3" using assms by simp_all
  then have "\<exists>w. b64 (a / 1000) = Fin w \<and> 0 \<le> w \<and> w \<le> 2 powi (3 + 1)"
    by (rule b64_le_pow) simp_all
  then obtain w where w: "b64 (a / 1000) = Fin w" "0 \<le> w" "w \<le> 2 powi 4" by auto
  have "z * w \<le> 2 powi 25 * 2 powi 4" using z(2,3) w(2,3) by (intro mult_mono) simp_all
  then have "0 \<le> z * w" "z * w \<le> 2 powi 29" using z(2) w(2) by simp_all
  then have "\<exists>d. b64 (z * w) = Fin d \<and> 0 \<le> d \<and> d \<le> 2 powi (29 + 1)"
    by (rule b64_le_pow) simp_all
  then show ?thesis by (simp add: y(1) HOUR_def z(1) w(1))
qed

lemma stored_power:
  "\<exists>P. (if dlt MAX_POWER (raw_power (interval now s)) then Fin 0
         else raw_power (interval now s)) = Fin P \<and> 0 \<le> P \<and> P \<le> 7040"
proof -
  obtain y where y: "interval now s = Fin y" "0 \<le> y"
    using period_fin[of "now - ulStartTime s"] by blast
  have "dle (Fin 0) (raw_power (interval now s))"
    unfolding y(1) using y(2) by (rule raw_power_nonneg)
  then show ?thesis by (rule clamp_bounds)
qed

section \<open>The report, statement by statement\<close>

lemma loop_report:
  "loop now s =
    (let s1 = s\<lparr>ulCurrentMillis := now\<rparr>
     in if uiUpdate * 1000 \<le> ulCurrentMillis s1 - ulPreviousMillis s1 then report s1 else ([], s1))"
  by (simp add: loop_def report_def report_stmts_def Let_def)

lemma isr_previous_update:
  "isr t (s\<lparr>ulPreviousMillis := v\<rparr>) = (isr t s)\<lparr>ulPreviousMillis := v\<rparr>"
  by (simp add: isr_def Let_def)

lemma preempted_0: "report_preempted 0 t s = handler_then_report t s"
  by (simp add: report_preempted_def handler_then_report_def report_def)

lemma preempted_1: "report_preempted (Suc 0) t s = handler_then_report t s"
  by (simp add: report_preempted_def handler_then_report_def report_def report_stmts_def
      isr_previous_update isr_millis)

lemma preempted_end:
  "length report_stmts \<le> k \<Longrightarrow> report_preempted k t s = report_then_handler t s"
  by (simp add: report_preempted_def report_then_handler_def report_def)

lemma report_values:
  "fst (report s) =
     [(power_topic, ddiv (dTotalW s) (of_u32 (uiIsrCount s))), (kWh_topic, dKWh s)]"
  "uiIsrCount (snd (report s)) = 0" "dTotalW (snd (report s)) = Fin 0"
  "dKWh (snd (report s)) = Fin 0"
  by (simp_all add: report_def report_stmts_def)

lemma preempted_after_publish:
  assumes "k = 4 \<or> k = 5"
  shows "fst (report_preempted k t s) =
           [(power_topic, ddiv (dTotalW s) (of_u32 (uiIsrCount s))), (kWh_topic, dKWh s)]"
    and "uiIsrCount (snd (report_preempted k t s)) = 0"
    and "dTotalW (snd (report_preempted k t s)) = Fin 0"
    and "dKWh (snd (report_preempted k t s)) = Fin 0"
  using assms by (auto simp: report_preempted_def report_stmts_def)

section \<open>Accumulated rounding error\<close>

lemma u53_bounds: "0 < u53" "u53 \<le> 1 / 2"
proof -
  show "0 < u53" by (simp add: u53_def powi2_pos)
  have "(2::rat) powi (- 53) \<le> 2 powi (- 1)" by (rule powi2_mono) simp
  then show "u53 \<le> 1 / 2" by (simp add: u53_def)
qed

lemma near_factors: "0 \<le> (1 - u53) ^ j" "0 \<le> (1 + u53) ^ j"
  using u53_bounds by simp_all

lemma near_scale:
  assumes "near j y x" "0 \<le> c"
  shows "near j (y * c) (x * c)"
proof -
  have "x * (1 - u53) ^ j * c \<le> y * c" "y * c \<le> x * (1 + u53) ^ j * c"
    using assms by (simp_all add: near_def mult_right_mono)
  then show ?thesis by (simp add: near_def mult.commute mult.left_commute)
qed

lemma near_div:
  assumes "near j y x" "0 < c"
  shows "near j (y / c) (x / c)"
  using near_scale[OF assms(1), of "1 / c"] assms(2) by simp

lemma near_trans:
  assumes "near j z y" "near k y x"
  shows "near (j + k) z x"
proof -
  have "x * (1 - u53) ^ k * (1 - u53) ^ j \<le> y * (1 - u53) ^ j"
    using assms(2) near_factors(1)[of j] by (simp add: near_def mult_right_mono)
  also have "\<dots> \<le> z" using assms(1) by (simp add: near_def)
  finally have lo: "x * (1 - u53) ^ (j + k) \<le> z"
    by (simp add: power_add mult.commute mult.left_commute)
  have "z \<le> y * (1 + u53) ^ j" using assms(1) by (simp add: near_def)
  also have "\<dots> \<le> x * (1 + u53) ^ k * (1 + u53) ^ j"
    using assms(2) near_factors(2)[of j] by (simp add: near_def mult_right_mono)
  finally have "z \<le> x * (1 + u53) ^ (j + k)"
    by (simp add: power_add mult.commute mult.left_commute)
  with lo show ?thesis by (simp add: near_def)
qed

lemma near_mult:
  assumes "near j y1 x1" "near k y2 x2" "0 \<le> x1" "0 \<le> x2"
  shows "near (j + k) (y1 * y2) (x1 * x2)"
proof -
  have l1: "0 \<le> x1 * (1 - u53) ^ j" and l2: "0 \<le> x2 * (1 - u53) ^ k"
    using assms(3,4) near_factors(1) by simp_all
  have y1: "0 \<le> y1" using l1 assms(1) by (simp add: near_def)
  have y2: "0 \<le> y2" using l2 assms(2) by (simp add: near_def)
  have "(x1 * (1 - u53) ^ j) * (x2 * (1 - u53) ^ k) \<le> y1 * y2"
    using assms(1,2) l1 l2 y1 by (intro mult_mono) (simp_all add: near_def)
  then have lo: "x1 * x2 * (1 - u53) ^ (j + k) \<le> y1 * y2"
    by (simp add: power_add mult.commute mult.left_commute)
  have "y1 * y2 \<le> (x1 * (1 + u53) ^ j) * (x2 * (1 + u53) ^ k)"
    using assms(1,2) y1 y2 l1 by (intro mult_mono) (auto simp: near_def intro: order_trans)
  then have "y1 * y2 \<le> x1 * x2 * (1 + u53) ^ (j + k)"
    by (simp add: power_add mult.commute mult.left_commute)
  with lo show ?thesis by (simp add: near_def)
qed

lemma near_5_bound:
  assumes "near 5 d (1 / 1000)"
  shows "\<bar>d * 1000 - 1\<bar> \<le> 2 powi (- 50)"
proof -
  define lo hi e :: rat where "lo = (1 - u53) ^ 5" and "hi = (1 + u53) ^ 5" and "e = 2 powi (- 50)"
  have "hi \<le> 1 + e" "1 - e \<le> lo"
    by (simp_all add: lo_def hi_def e_def u53_def power_divide)
  moreover have "lo \<le> d * 1000" "d * 1000 \<le> hi"
    using assms by (simp_all add: near_def lo_def hi_def)
  ultimately have "\<bar>d * 1000 - 1\<bar> \<le> e" by linarith
  then show ?thesis by (simp only: e_def)
qed

lemma rng_pos:
  assumes "rng k x"
  shows "0 < x"
proof -
  have "2 powi (- k) \<le> x" using assms by (simp add: rng_def)
  with powi2_pos[of "- k"] show ?thesis by (rule less_le_trans)
qed

lemma rng_mult:
  assumes "rng j x" "rng k y"
  shows "rng (j + k) (x * y)"
proof -
  have p: "0 < x" "0 < y" using assms by (auto dest: rng_pos)
  have "2 powi (- j) * 2 powi (- k) \<le> x * y"
    using assms powi2_pos[of "- j"] powi2_pos[of "- k"] p
    by (intro mult_mono) (simp_all add: rng_def)
  moreover have "x * y \<le> 2 powi j * 2 powi k"
    using assms p powi2_pos[of j] by (intro mult_mono) (simp_all add: rng_def)
  ultimately show ?thesis
    using power_int_add[of "2::rat" j k] power_int_add[of "2::rat" "- j" "- k"]
    by (simp add: rng_def)
qed

lemma rng_inverse:
  assumes "rng k x"
  shows "rng k (1 / x)"
proof -
  have p: "0 < x" using assms by (rule rng_pos)
  have "1 / x \<le> 1 / 2 powi (- k)"
    using assms powi2_pos[of "- k"] by (intro divide_left_mono) (simp_all add: rng_def p)
  moreover have "1 / 2 powi k \<le> 1 / x"
    using assms p powi2_pos[of k] by (intro divide_left_mono) (simp_all add: rng_def)
  ultimately show ?thesis by (simp add: rng_def power_int_minus_divide)
qed

lemma rng_div: "rng j x \<Longrightarrow> rng k y \<Longrightarrow> rng (j + k) (x / y)"
  using rng_mult[of j x k "1 / y"] rng_inverse[of k y] by simp

lemma rng_3600: "rng 12 3600"
  by (simp add: rng_def)

lemma rng_1000: "rng 10 1000"
  by (simp add: rng_def)

lemma rng_b64:
  assumes "rng k x" "0 \<le> k" "k \<le> 1021"
  shows "\<exists>y. b64 x = Fin y \<and> near 1 y x \<and> rng (k + 1) y"
proof -
  have xp: "0 < x" using assms(1) by (rule rng_pos)
  have "(2::rat) powi (- 1022) \<le> 2 powi (- k)" using assms(3) by (intro powi2_mono) simp
  then have lo: "2 powi (- 1022) \<le> x" using assms(1) by (simp add: rng_def)
  have "(2::rat) powi k < 2 powi 1023" using assms(3) by (intro powi2_strict_mono) simp
  then have hi: "x < 2 powi 1023" using assms(1) by (simp add: rng_def)
  obtain y where y: "b64 x = Fin y" "\<bar>y - x\<bar> \<le> x * 2 powi (- 53)"
    by (rule b64_normal[OF lo hi])
  have e: "\<bar>y - x\<bar> \<le> x * u53" using y(2) by (simp only: u53_def)
  then have n: "near 1 y x" by (simp add: near_def abs_le_iff algebra_simps)
  have "x * u53 \<le> x * (1 / 2)" using u53_bounds(2) xp by (intro mult_left_mono) simp_all
  then have h: "x * u53 \<le> x / 2" by simp
  from e h xp have b: "x / 2 \<le> y" "y \<le> 2 * x" by linarith+
  have "2 powi (- (k + 1)) = 2 powi (- k) / (2::rat)"
    using powi2_Suc[of "- (k + 1)"] by simp
  also have "\<dots> \<le> x / 2" using assms(1) by (simp add: rng_def)
  finally have l: "2 powi (- (k + 1)) \<le> y" using b(1) by simp
  have "y \<le> 2 * 2 powi k" using b(2) assms(1) by (simp add: rng_def)
  then have "y \<le> 2 powi (k + 1)" by (simp add: powi2_Suc)
  with l n y(1) show ?thesis by (simp add: rng_def)
qed

lemma accepted_interval_rng:
  assumes "\<not> dle (interval now s) SECOND_ISR_PERIOD"
  shows "\<exists>yi. interval now s = Fin yi \<and> rng 24 yi"
proof -
  define m where "m = unat (now - ulStartTime s)"
  define n :: rat where "n = of_nat m"
  have i: "interval now s = b64 (n / 1000)"
    unfolding of_u32_def n_def m_def by simp
  have "m \<noteq> 0"
  proof
    assume "m = 0"
    then have "interval now s = Fin 0" unfolding i n_def by (simp add: b64_zero)
    with assms show False by (simp add: SECOND_ISR_PERIOD_def b64_9_100)
  qed
  then have "1 \<le> m" by simp
  then have "(of_nat 1 :: rat) \<le> of_nat m" by (simp only: of_nat_le_iff)
  then have n1: "1 \<le> n" by (simp add: n_def)
  have n2: "n < 2 ^ 32" unfolding n_def m_def by (rule u32_rat_bounds)
  have "(2::rat) powi (- 23) \<le> 1 / 1000" by simp
  also have "\<dots> \<le> n / 1000" using n1 by simp
  finally have lo: "2 powi (- 23) \<le> n / 1000" .
  have "n / 1000 \<le> 2 ^ 32 / 1000" using n2 by simp
  also have "\<dots> \<le> (2::rat) powi 23" by simp
  finally have "rng 23 (n / 1000)" using lo by (simp add: rng_def)
  from rng_b64[OF this] obtain yi where "b64 (n / 1000) = Fin yi" "rng (23 + 1) yi" by auto
  then show ?thesis using i by simp
qed

lemma increment_chain:
  assumes "rng 24 yi"
  shows "\<exists>d. dmul (ddiv (Fin yi) HOUR) (ddiv (raw_power (Fin yi)) (Fin 1000)) = Fin d \<and>
             near 5 d (1 / 1000)"
proof -
  have yi: "0 < yi" using assms by (rule rng_pos)
  \<comment> \<open>\<open>1.0 / period\<close>\<close>
  have "rng 24 (1 / yi)" using assms by (rule rng_inverse)
  from rng_b64[OF this] obtain ya
    where ya: "b64 (1 / yi) = Fin ya" "near 1 ya (1 / yi)" "rng 25 ya" by auto
  \<comment> \<open>\<open>\<dots> * 3600.0\<close>\<close>
  have "rng (25 + 12) (ya * 3600)" using ya(3) rng_3600 by (rule rng_mult)
  from rng_b64[OF this] obtain yp
    where yp: "b64 (ya * 3600) = Fin yp" "near 1 yp (ya * 3600)" "rng 38 yp" by auto
  have "near 1 (ya * 3600) (1 / yi * 3600)" using ya(2) by (rule near_scale) simp
  with yp(2) have np: "near (1 + 1) yp (1 / yi * 3600)" by (rule near_trans)
  \<comment> \<open>\<open>period / 3600.0\<close>\<close>
  have "rng (24 + 12) (yi / 3600)" using assms rng_3600 by (rule rng_div)
  from rng_b64[OF this] obtain y1
    where y1: "b64 (yi / 3600) = Fin y1" "near 1 y1 (yi / 3600)" by auto
  \<comment> \<open>\<open>power / 1000.0\<close>\<close>
  have "rng (38 + 10) (yp / 1000)" using yp(3) rng_1000 by (rule rng_div)
  from rng_b64[OF this] obtain y2
    where y2: "b64 (yp / 1000) = Fin y2" "near 1 y2 (yp / 1000)" "rng 49 y2" by auto
  have "near (1 + 1) (yp / 1000) (1 / yi * 3600 / 1000)" using np by (rule near_div) simp
  with y2(2) have n2: "near (1 + (1 + 1)) y2 (1 / yi * 3600 / 1000)" by (rule near_trans)
  \<comment> \<open>the product\<close>
  have r1: "rng (36 + 1) y1" using rng_b64[OF \<open>rng (24 + 12) (yi / 3600)\<close>] y1(1) by auto
  have "rng (36 + 1 + 49) (y1 * y2)" using r1 y2(3) by (rule rng_mult)
  from rng_b64[OF this] obtain d
    where d: "b64 (y1 * y2) = Fin d" "near 1 d (y1 * y2)" by auto
  have "near (1 + (1 + (1 + 1))) (y1 * y2) (yi / 3600 * (1 / yi * 3600 / 1000))"
    using y1(2) n2 yi by (intro near_mult) simp_all
  with d(2) have n5: "near (1 + (1 + (1 + (1 + 1)))) d (yi / 3600 * (1 / yi * 3600 / 1000))"
    by (rule near_trans)
  have e: "yi / 3600 * (1 / yi * 3600 / 1000) = 1 / 1000" using yi by simp
  have five: "1 + (1 + (1 + (1 + 1))) = (5::nat)" by simp
  from n5 have "near 5 d (1 / 1000)" by (simp only: e five)
  moreover have "dmul (ddiv (Fin yi) HOUR) (ddiv (raw_power (Fin yi)) (Fin 1000)) = Fin d"
    using yi by (simp add: HOUR_def PULSES_KWH_RES_def ya(1) yp(1) y1(1) y2(1) d(1))
  ultimately show ?thesis by blast
qed

section \<open>The sample states, evaluated\<close>

lemma isr_eval:
  assumes "interval now s = Fin i" "\<not> dle (Fin i) SECOND_ISR_PERIOD"
    and "raw_power (Fin i) = Fin P" "\<not> dlt MAX_POWER (Fin P)"
  shows "dPulsePeriod (isr now s) = Fin i"
    and "dPower (isr now s) = Fin P"
    and "uiIsrCount (isr now s) = uiIsrCount s + 1"
    and "dTotalW (isr now s) = dadd (dTotalW s) (Fin P)"
    and "dKWh (isr now s) =
           dadd (dKWh s) (dmul (ddiv (Fin i) HOUR) (ddiv (Fin P) (Fin 1000)))"
proof -
  have acc: "\<not> dle (interval now s) SECOND_ISR_PERIOD" using assms(1,2) by simp
  note f = isr_accepted_fields[OF acc]
  show "dPulsePeriod (isr now s) = Fin i" using f(1) assms(1) by simp
  show p: "dPower (isr now s) = Fin P" using f(2) assms(1,3,4) by simp
  show "uiIsrCount (isr now s) = uiIsrCount s + 1" by (rule f(3))
  show "dTotalW (isr now s) = dadd (dTotalW s) (Fin P)" using f(4) p by simp
  show "dKWh (isr now s) =
      dadd (dKWh s) (dmul (ddiv (Fin i) HOUR) (ddiv (Fin P) (Fin 1000)))"
    using f(5) p assms(1) by simp
qed

lemma accepts_1s: "\<not> dle (Fin 1) SECOND_ISR_PERIOD"
  by (simp add: SECOND_ISR_PERIOD_def b64_9_100)

lemma accepts_2s: "\<not> dle (Fin 2) SECOND_ISR_PERIOD"
  by (simp add: SECOND_ISR_PERIOD_def b64_9_100)

lemma accepts_64s: "\<not> dle (Fin 64) SECOND_ISR_PERIOD"
  by (simp add: SECOND_ISR_PERIOD_def b64_9_100)

lemma raw_power_1s: "raw_power (Fin 1) = Fin 3600"
  by (simp add: PULSES_KWH_RES_def HOUR_def b64_1 b64_3600)

lemma raw_power_2s: "raw_power (Fin 2) = Fin 1800"
  using b64_eval[of 10 "1800" 7916483719987200] by (simp add: PULSES_KWH_RES_def HOUR_def b64_half)

lemma raw_power_64s: "raw_power (Fin 64) = Fin (225 / 4)"
  by (simp add: PULSES_KWH_RES_def HOUR_def b64_1_64 b64_225_4)

lemma addend_1s:
  "dmul (ddiv (Fin 1) HOUR) (ddiv (Fin 3600) (Fin 1000)) = Fin (1152921504606847 / 1152921504606846976)"
proof -
  have a: "ddiv (Fin 1) HOUR = Fin (5124095576030431 / 18446744073709551616)"
    using b64_eval[of "- 12" "1 / 3600" 5124095576030431] by (simp add: HOUR_def)
  have b: "ddiv (Fin 3600) (Fin 1000) = Fin (8106479329266893 / 2251799813685248)"
    using b64_eval[of 1 "18 / 5" 8106479329266893] by simp
  show ?thesis unfolding a b using b64_eval[of "- 10" "5124095576030431 / 18446744073709551616 * (8106479329266893 / 2251799813685248)" 4611686018427388] by simp
qed

lemma addend_2s:
  "dmul (ddiv (Fin 2) HOUR) (ddiv (Fin 1800) (Fin 1000)) = Fin (1152921504606847 / 1152921504606846976)"
proof -
  have a: "ddiv (Fin 2) HOUR = Fin (5124095576030431 / 9223372036854775808)"
    using b64_eval[of "- 11" "1 / 1800" 5124095576030431] by (simp add: HOUR_def)
  have b: "ddiv (Fin 1800) (Fin 1000) = Fin (8106479329266893 / 4503599627370496)"
    using b64_eval[of 0 "9 / 5" 8106479329266893] by simp
  show ?thesis unfolding a b using b64_eval[of "- 10" "5124095576030431 / 9223372036854775808 * (8106479329266893 / 4503599627370496)" 4611686018427388] by simp
qed

lemma b64_milli: "b64 (1152921504606847 / 1152921504606846976) = Fin (1152921504606847 / 1152921504606846976)"
  using b64_eval[of "- 10" "1152921504606847 / 1152921504606846976" 4611686018427388] by simp

lemma dadd_milli_milli:
  "dadd (Fin (1152921504606847 / 1152921504606846976)) (Fin (1152921504606847 / 1152921504606846976)) = Fin (1152921504606847 / 576460752303423488)"
  using b64_eval[of "- 9" "1152921504606847 / 1152921504606846976 + 1152921504606847 / 1152921504606846976" 4611686018427388] by simp

lemma dadd_below_milli:
  "dadd (Fin (4611686018427387 / 4611686018427387904)) (Fin (1152921504606847 / 1152921504606846976)) = Fin (1152921504606847 / 576460752303423488)"
  using b64_eval_tie[of "- 9" "4611686018427387 / 4611686018427387904 + 1152921504606847 / 1152921504606846976" 4611686018427387] by simp

lemma start_fields:
  "ulStartTime (setup_init 0 init_state) = 0" "uiIsrCount (setup_init 0 init_state) = 0"
  "dTotalW (setup_init 0 init_state) = Fin 0" "dKWh (setup_init 0 init_state) = Fin 0"
  "ulPreviousMillis (setup_init 0 init_state) = 0"
  by (simp_all add: setup_init_def init_state_def)

lemma one_pulse_fields:
  "uiIsrCount one_pulse = 1" "dTotalW one_pulse = Fin 3600"
  "dKWh one_pulse = Fin (1152921504606847 / 1152921504606846976)"
  "ulStartTime one_pulse = 0" "ulPreviousMillis one_pulse = 0"
proof -
  have i: "interval 1000 (setup_init 0 init_state) = Fin 1"
    by (simp add: start_fields of_u32_def b64_1)
  note e = isr_eval[OF i accepts_1s raw_power_1s]
  have nc: "\<not> dlt MAX_POWER (Fin 3600)" by (simp add: MAX_POWER_def)
  show "uiIsrCount one_pulse = 1" unfolding one_pulse_def e(3)[OF nc] by (simp add: start_fields)
  show "dTotalW one_pulse = Fin 3600"
    unfolding one_pulse_def e(4)[OF nc] by (simp add: start_fields b64_3600)
  show "dKWh one_pulse = Fin (1152921504606847 / 1152921504606846976)"
    unfolding one_pulse_def e(5)[OF nc] addend_1s by (simp add: start_fields b64_milli)
  show "ulStartTime one_pulse = 0" "ulPreviousMillis one_pulse = 0"
    by (simp_all add: one_pulse_def isr_start isr_millis start_fields)
qed

lemma two_pulses_fields:
  "uiIsrCount two_pulses = 2" "dTotalW two_pulses = Fin 7200"
  "dKWh two_pulses = Fin (1152921504606847 / 576460752303423488)"
  "ulPreviousMillis two_pulses = 0"
proof -
  have i: "interval 1000 one_pulse = Fin 1"
    by (simp add: one_pulse_fields of_u32_def b64_1)
  note e = isr_eval[OF i accepts_1s raw_power_1s]
  have nc: "\<not> dlt MAX_POWER (Fin 3600)" by (simp add: MAX_POWER_def)
  show "uiIsrCount two_pulses = 2" unfolding two_pulses_def e(3)[OF nc] by (simp add: one_pulse_fields)
  show "dTotalW two_pulses = Fin 7200"
    unfolding two_pulses_def e(4)[OF nc] by (simp add: one_pulse_fields b64_7200)
  show "dKWh two_pulses = Fin (1152921504606847 / 576460752303423488)"
    unfolding two_pulses_def e(5)[OF nc] addend_1s one_pulse_fields by (rule dadd_milli_milli)
  show "ulPreviousMillis two_pulses = 0"
    by (simp add: two_pulses_def isr_millis one_pulse_fields)
qed

lemma second_pulse_fields:
  "\<not> dle (interval 2000 one_pulse) SECOND_ISR_PERIOD"
  "dPulsePeriod (isr 2000 one_pulse) = Fin 2"
  "dPower (isr 2000 one_pulse) = Fin 1800"
  "uiIsrCount (isr 2000 one_pulse) = 2"
  "dTotalW (isr 2000 one_pulse) = Fin 5400"
  "dKWh (isr 2000 one_pulse) = Fin (1152921504606847 / 576460752303423488)"
proof -
  have i: "interval 2000 one_pulse = Fin 2"
    by (simp add: one_pulse_fields of_u32_def b64_2)
  show "\<not> dle (interval 2000 one_pulse) SECOND_ISR_PERIOD" unfolding i by (rule accepts_2s)
  note e = isr_eval[OF i accepts_2s raw_power_2s]
  have nc: "\<not> dlt MAX_POWER (Fin 1800)" by (simp add: MAX_POWER_def)
  show "dPulsePeriod (isr 2000 one_pulse) = Fin 2" by (rule e(1)[OF nc])
  show "dPower (isr 2000 one_pulse) = Fin 1800" by (rule e(2)[OF nc])
  show "uiIsrCount (isr 2000 one_pulse) = 2" unfolding e(3)[OF nc] by (simp add: one_pulse_fields)
  show "dTotalW (isr 2000 one_pulse) = Fin 5400"
    unfolding e(4)[OF nc] one_pulse_fields using b64_eval[of 12 "5400" 5937362789990400] by simp
  show "dKWh (isr 2000 one_pulse) = Fin (1152921504606847 / 576460752303423488)"
    unfolding e(5)[OF nc] addend_2s one_pulse_fields by (rule dadd_milli_milli)
qed

section \<open>Claims\<close>

subsection \<open>C1: where the interval is measured from\<close>

text \<open>
  C1. The handler never assigns \<open>ulStartTime\<close>: only \<open>setup()\<close> does. After a start at
  time 0 and an accepted edge at 1000 ms, \<open>ulStartTime\<close> is still 0, and the edge at
  2000 ms is given the interval 2 s, the time since the start, not the 1 s since the
  previous accepted edge.
\<close>

theorem isr_interval_from_start:
  "ulStartTime (isr 1000 (setup_init 0 init_state)) = 0 \<and>
   dPulsePeriod (isr 1000 (setup_init 0 init_state)) = Fin 1 \<and>
   dPulsePeriod (isr 2000 (isr 1000 (setup_init 0 init_state))) = Fin 2"
  by (simp add: isr_start isr_period setup_init_def init_state_def of_u32_def
      SECOND_ISR_PERIOD_def b64_1 b64_2 b64_9_100)

subsection \<open>C2: a window without pulses\<close>

text \<open>
  C2. The report divides \<open>dTotalW\<close> by \<open>uiIsrCount\<close> without testing the count. At a
  window boundary with no accepted pulse the quotient is 0.0 / 0, a NaN, and that is
  the value published on the power topic.
\<close>

theorem loop_empty_window_publishes_nan:
  "fst (loop 60000 (setup_init 0 init_state)) = [(power_topic, NaN), (kWh_topic, Fin 0)]"
  by (simp add: loop_def setup_init_def init_state_def of_u32_def uiUpdate_def Let_def)

subsection \<open>C3: what a drain reports and resets\<close>

text \<open>
  C3, as stated, fails. With one sample of 3600 W in the window (\<open>sampled_state\<close>), let
  the handler run at the loop's own time, 64000 ms. If it runs after the average has
  been computed and before it is published, the power published is the 56.25 W the
  handler has just derived, not the 3600 W of the window. If it runs after the reset of
  the power sum and before the reset of the count, the drain ends with a power sum of
  56.25, not zero, next to a count and an energy of zero. And the sketch reports no
  count and no sum: one sample of 3600 W and two samples of 3600 W (count 1 and sum
  3600, count 2 and sum 7200) publish the same power, 3600.
\<close>

theorem drain_preempted_partial_reset:
  "loop 64000 one_pulse = report sampled_state \<and>
   uiIsrCount sampled_state = 1 \<and>
   dTotalW sampled_state = Fin 3600 \<and>
   ddiv (dTotalW sampled_state) (of_u32 (uiIsrCount sampled_state)) = Fin 3600 \<and>
   fst (report_preempted 2 64000 sampled_state) ! 0 = (power_topic, Fin (225 / 4)) \<and>
   uiIsrCount (snd (report_preempted 6 64000 sampled_state)) = 0 \<and>
   dTotalW (snd (report_preempted 6 64000 sampled_state)) = Fin (225 / 4) \<and>
   dKWh (snd (report_preempted 6 64000 sampled_state)) = Fin 0 \<and>
   uiIsrCount two_pulses = 2 \<and>
   dTotalW two_pulses = Fin 7200 \<and>
   fst (loop 64000 one_pulse) = [(power_topic, Fin 3600), (kWh_topic, dKWh one_pulse)] \<and>
   fst (loop 64000 two_pulses) = [(power_topic, Fin 3600), (kWh_topic, dKWh two_pulses)]"
proof -
  have l: "loop 64000 one_pulse = report sampled_state"
    by (simp add: loop_report sampled_state_def one_pulse_fields uiUpdate_def Let_def)
  have f: "dTotalW sampled_state = Fin 3600" "uiIsrCount sampled_state = 1"
    by (simp_all add: sampled_state_def one_pulse_fields)
  have q: "ddiv (dTotalW sampled_state) (of_u32 (uiIsrCount sampled_state)) = Fin 3600"
    unfolding f by (simp add: of_u32_def b64_3600)
  have nc: "\<not> dlt MAX_POWER (Fin (225 / 4))" by (simp add: MAX_POWER_def)
  \<comment> \<open>the handler between the average and the first publish\<close>
  define s2 where "s2 = sampled_state\<lparr>ulPreviousMillis := ulCurrentMillis sampled_state,
    dPower := ddiv (dTotalW sampled_state) (of_u32 (uiIsrCount sampled_state))\<rparr>"
  have i2: "interval 64000 s2 = Fin 64"
    by (simp add: s2_def sampled_state_def one_pulse_fields of_u32_def b64_64)
  have "fst (report_preempted 2 64000 sampled_state) ! 0 = (power_topic, dPower (isr 64000 s2))"
    by (simp add: report_preempted_def report_stmts_def s2_def)
  then have p2: "fst (report_preempted 2 64000 sampled_state) ! 0 = (power_topic, Fin (225 / 4))"
    by (simp only: isr_eval(2)[OF i2 accepts_64s raw_power_64s nc])
  \<comment> \<open>the handler between the reset of the sum and the reset of the count\<close>
  define s6 where "s6 = sampled_state\<lparr>ulPreviousMillis := ulCurrentMillis sampled_state,
    dPower := Fin 0, dTotalW := Fin 0\<rparr>"
  have i6: "interval 64000 s6 = Fin 64"
    by (simp add: s6_def sampled_state_def one_pulse_fields of_u32_def b64_64)
  have t6: "dTotalW (isr 64000 s6) = Fin (225 / 4)"
    unfolding isr_eval(4)[OF i6 accepts_64s raw_power_64s nc] by (simp add: s6_def b64_225_4)
  have "snd (report_preempted 6 64000 sampled_state) =
      (isr 64000 s6)\<lparr>uiIsrCount := 0, dKWh := Fin 0\<rparr>"
    by (simp add: report_preempted_def report_stmts_def s6_def)
  then have r6: "uiIsrCount (snd (report_preempted 6 64000 sampled_state)) = 0"
    "dTotalW (snd (report_preempted 6 64000 sampled_state)) = Fin (225 / 4)"
    "dKWh (snd (report_preempted 6 64000 sampled_state)) = Fin 0"
    using t6 by simp_all
  \<comment> \<open>one sample of 3600 W and two samples of 3600 W publish the same power\<close>
  have h1: "uiUpdate * 1000 \<le> 64000 - ulPreviousMillis one_pulse"
    by (simp add: one_pulse_fields uiUpdate_def)
  have h2: "uiUpdate * 1000 \<le> 64000 - ulPreviousMillis two_pulses"
    by (simp add: two_pulses_fields uiUpdate_def)
  have o1: "fst (loop 64000 one_pulse) = [(power_topic, Fin 3600), (kWh_topic, dKWh one_pulse)]"
    using h1 by (simp add: loop_def Let_def one_pulse_fields of_u32_def b64_3600)
  have o2: "fst (loop 64000 two_pulses) = [(power_topic, Fin 3600), (kWh_topic, dKWh two_pulses)]"
    using h2 by (simp add: loop_def Let_def two_pulses_fields of_u32_def b64_3600)
  from l f q p2 r6 two_pulses_fields(1,2) o1 o2 show ?thesis by simp
qed

text \<open>
  C3, amended. At a window boundary the loop publishes the quotient of the power sum
  by the count (the average; the two are not reported separately) and the energy, all
  as they were when the drain began, and it leaves the count, the power sum and the
  energy at zero. This holds for a drain the handler does not interrupt, and also when
  the handler runs after the second publish and before the reset of the power sum
  (positions 4 and 5 of the report). A handler that runs before the average is computed
  (positions 0 and 1) acts on the state the drain then reads, and one that runs after
  the last reset acts on the state the drain has left. Nothing is stated for a handler
  that runs between the computation of the average and the second publish, or between
  the reset of the power sum and the reset of the energy.
\<close>

theorem loop_drain:
  "(uiUpdate * 1000 \<le> now - ulPreviousMillis s \<longrightarrow>
      fst (loop now s) =
        [(power_topic, ddiv (dTotalW s) (of_u32 (uiIsrCount s))), (kWh_topic, dKWh s)] \<and>
      uiIsrCount (snd (loop now s)) = 0 \<and>
      dTotalW (snd (loop now s)) = Fin 0 \<and>
      dKWh (snd (loop now s)) = Fin 0) \<and>
   (k = 4 \<or> k = 5 \<longrightarrow>
      fst (report_preempted k t s) =
        [(power_topic, ddiv (dTotalW s) (of_u32 (uiIsrCount s))), (kWh_topic, dKWh s)] \<and>
      uiIsrCount (snd (report_preempted k t s)) = 0 \<and>
      dTotalW (snd (report_preempted k t s)) = Fin 0 \<and>
      dKWh (snd (report_preempted k t s)) = Fin 0) \<and>
   (k \<le> 1 \<longrightarrow> report_preempted k t s = report (isr t s)) \<and>
   (length report_stmts \<le> k \<longrightarrow>
      report_preempted k t s = (fst (report s), isr t (snd (report s)))) \<and>
   fst (report s) =
     [(power_topic, ddiv (dTotalW s) (of_u32 (uiIsrCount s))), (kWh_topic, dKWh s)] \<and>
   uiIsrCount (snd (report s)) = 0 \<and>
   dTotalW (snd (report s)) = Fin 0 \<and>
   dKWh (snd (report s)) = Fin 0"
proof -
  have a: "uiUpdate * 1000 \<le> now - ulPreviousMillis s \<longrightarrow>
      fst (loop now s) =
        [(power_topic, ddiv (dTotalW s) (of_u32 (uiIsrCount s))), (kWh_topic, dKWh s)] \<and>
      uiIsrCount (snd (loop now s)) = 0 \<and>
      dTotalW (snd (loop now s)) = Fin 0 \<and>
      dKWh (snd (loop now s)) = Fin 0"
    by (simp add: loop_def Let_def)
  have b: "k = 4 \<or> k = 5 \<longrightarrow>
      fst (report_preempted k t s) =
        [(power_topic, ddiv (dTotalW s) (of_u32 (uiIsrCount s))), (kWh_topic, dKWh s)] \<and>
      uiIsrCount (snd (report_preempted k t s)) = 0 \<and>
      dTotalW (snd (report_preempted k t s)) = Fin 0 \<and>
      dKWh (snd (report_preempted k t s)) = Fin 0"
    using preempted_after_publish[of k t s] by blast
  have c: "k \<le> 1 \<longrightarrow> report_preempted k t s = report (isr t s)"
  proof
    assume "k \<le> 1"
    then consider "k = 0" | "k = Suc 0" by linarith
    then show "report_preempted k t s = report (isr t s)"
      by cases (simp_all add: preempted_0 preempted_1 handler_then_report_def)
  qed
  have d: "length report_stmts \<le> k \<longrightarrow>
      report_preempted k t s = (fst (report s), isr t (snd (report s)))"
    by (simp add: preempted_end report_then_handler_def split_beta)
  from a b c d report_values[of s] show ?thesis by blast
qed

theorem loop_drain_witness:
  "uiUpdate * 1000 \<le> 64000 - ulPreviousMillis one_pulse \<and>
   fst (loop 64000 one_pulse) =
     [(power_topic, Fin 3600), (kWh_topic, Fin (1152921504606847 / 1152921504606846976))] \<and>
   uiIsrCount (snd (loop 64000 one_pulse)) = 0 \<and>
   dTotalW (snd (loop 64000 one_pulse)) = Fin 0 \<and>
   dKWh (snd (loop 64000 one_pulse)) = Fin 0 \<and>
   fst (report_preempted 4 64000 sampled_state) =
     [(power_topic, Fin 3600), (kWh_topic, Fin (1152921504606847 / 1152921504606846976))] \<and>
   uiIsrCount (snd (report_preempted 4 64000 sampled_state)) = 0 \<and>
   dTotalW (snd (report_preempted 4 64000 sampled_state)) = Fin 0 \<and>
   dKWh (snd (report_preempted 4 64000 sampled_state)) = Fin 0 \<and>
   report_preempted 1 64000 sampled_state = report (isr 64000 sampled_state) \<and>
   report_preempted 8 64000 sampled_state =
     (fst (report sampled_state), isr 64000 (snd (report sampled_state)))"
proof -
  have h: "uiUpdate * 1000 \<le> 64000 - ulPreviousMillis one_pulse"
    by (simp add: one_pulse_fields uiUpdate_def)
  have q: "ddiv (Fin 3600) (of_u32 1) = Fin 3600" by (simp add: of_u32_def b64_3600)
  have f: "dTotalW sampled_state = Fin 3600" "uiIsrCount sampled_state = 1"
    "dKWh sampled_state = Fin (1152921504606847 / 1152921504606846976)"
    by (simp_all add: sampled_state_def one_pulse_fields)
  from loop_drain[of 64000 one_pulse 4 64000] h
    loop_drain[of 64000 sampled_state 4 64000]
    loop_drain[of 64000 sampled_state 1 64000]
    loop_drain[of 64000 sampled_state 8 64000]
  show ?thesis by (simp add: one_pulse_fields f q report_stmts_def)
qed

subsection \<open>C4: bounces\<close>

text \<open>
  C4. An edge whose interval compares \<open>\<le> SECOND_ISR_PERIOD\<close> (0.09 s) changes neither
  the count, nor the power sum, nor the energy.
\<close>

theorem isr_bounce_discarded:
  assumes "dle (interval now s) SECOND_ISR_PERIOD"
  shows "uiIsrCount (isr now s) = uiIsrCount s \<and>
         dTotalW (isr now s) = dTotalW s \<and>
         dKWh (isr now s) = dKWh s"
  using assms by (simp add: isr_def Let_def)

theorem isr_bounce_discarded_witness:
  "dle (interval 90 init_state) SECOND_ISR_PERIOD \<and>
   uiIsrCount (isr 90 init_state) = uiIsrCount init_state \<and>
   dTotalW (isr 90 init_state) = dTotalW init_state \<and>
   dKWh (isr 90 init_state) = dKWh init_state"
proof -
  have h: "dle (interval 90 init_state) SECOND_ISR_PERIOD"
    by (simp add: init_state_def of_u32_def SECOND_ISR_PERIOD_def b64_9_100)
  from isr_bounce_discarded[OF h] h show ?thesis by simp
qed

subsection \<open>C5: derived power and the plausibility test\<close>

text \<open>
  C5. For an accepted edge with interval \<open>i\<close> the derived power is \<open>(K / i) * 3600\<close>.
  When that does not exceed \<open>MAX_POWER\<close> it is the power stored; when it does, the
  count still goes up by one, the stored power is 0, and the power sum and the energy
  keep their values. The two hypotheses on the state say that the power sum and the
  energy hold binary64 numbers, to which adding 0 changes nothing; every state the
  sketch reaches is of that kind (\<open>state_wf\<close> above).
\<close>

theorem isr_power_clamp:
  assumes "\<not> dle (interval now s) SECOND_ISR_PERIOD"
    and "is_b64 (dTotalW s)" and "is_b64 (dKWh s)"
  shows "(\<not> dlt MAX_POWER (raw_power (interval now s)) \<longrightarrow>
            dPower (isr now s) = raw_power (interval now s)) \<and>
         (dlt MAX_POWER (raw_power (interval now s)) \<longrightarrow>
            uiIsrCount (isr now s) = uiIsrCount s + 1 \<and>
            dPower (isr now s) = Fin 0 \<and>
            dTotalW (isr now s) = dTotalW s \<and>
            dKWh (isr now s) = dKWh s)"
proof -
  note f = isr_accepted_fields[OF assms(1)]
  show ?thesis
  proof (cases "dlt MAX_POWER (raw_power (interval now s))")
    case True
    then have p: "dPower (isr now s) = Fin 0" by (simp add: f(2))
    have "dTotalW (isr now s) = dTotalW s"
      unfolding f(4) p using assms(2) by (rule dadd_zero)
    moreover have "dKWh (isr now s) = dKWh s"
      unfolding f(5) p energy_of_zero_power using assms(3) by (rule dadd_zero)
    ultimately show ?thesis using True p f(3) by simp
  next
    case False
    then show ?thesis by (simp add: f(2))
  qed
qed

theorem isr_power_clamp_witness:
  "\<not> dle (interval 500 init_state) SECOND_ISR_PERIOD \<and>
   is_b64 (dTotalW init_state) \<and> is_b64 (dKWh init_state) \<and>
   raw_power (interval 500 init_state) = Fin 7200 \<and>
   dlt MAX_POWER (raw_power (interval 500 init_state)) \<and>
   uiIsrCount (isr 500 init_state) = uiIsrCount init_state + 1 \<and>
   dPower (isr 500 init_state) = Fin 0 \<and>
   dTotalW (isr 500 init_state) = dTotalW init_state \<and>
   dKWh (isr 500 init_state) = dKWh init_state \<and>
   \<not> dle (interval 1000 init_state) SECOND_ISR_PERIOD \<and>
   \<not> dlt MAX_POWER (raw_power (interval 1000 init_state)) \<and>
   dPower (isr 1000 init_state) = Fin 3600"
proof -
  have i: "interval 500 init_state = Fin (1 / 2)"
    by (simp add: init_state_def of_u32_def b64_half)
  have acc: "\<not> dle (interval 500 init_state) SECOND_ISR_PERIOD"
    unfolding i by (simp add: SECOND_ISR_PERIOD_def b64_9_100)
  have wf: "is_b64 (dTotalW init_state)" "is_b64 (dKWh init_state)"
    by (simp_all add: init_state_def b64_zero)
  have p: "raw_power (interval 500 init_state) = Fin 7200"
    unfolding i by (simp add: PULSES_KWH_RES_def HOUR_def b64_2 b64_7200)
  have c: "dlt MAX_POWER (raw_power (interval 500 init_state))"
    unfolding p by (simp add: MAX_POWER_def)
  have i': "interval 1000 init_state = Fin 1"
    by (simp add: init_state_def of_u32_def b64_1)
  have acc': "\<not> dle (interval 1000 init_state) SECOND_ISR_PERIOD"
    unfolding i' by (simp add: SECOND_ISR_PERIOD_def b64_9_100)
  have p': "raw_power (interval 1000 init_state) = Fin 3600"
    unfolding i' by (simp add: PULSES_KWH_RES_def HOUR_def b64_1 b64_3600)
  have c': "\<not> dlt MAX_POWER (raw_power (interval 1000 init_state))"
    unfolding p' by (simp add: MAX_POWER_def)
  from isr_power_clamp[OF acc' wf] c' have "dPower (isr 1000 init_state) = Fin 3600"
    by (simp add: p')
  with isr_power_clamp[OF acc wf] acc wf p c acc' c' show ?thesis by simp
qed

subsection \<open>C6: what an accepted edge adds\<close>

text \<open>
  C6. An accepted edge adds one to the count, adds the power \<open>P\<close> it stores in
  \<open>dPower\<close> (the derived power, or 0 when that exceeds \<open>MAX_POWER\<close>) to the power sum,
  and adds \<open>d = (interval / 3600) * (P / 1000)\<close> to the energy. The additions are those
  of \<open>double\<close>: from a power sum \<open>T\<close> and an energy \<open>E\<close> the new values are the binary64
  numbers nearest to \<open>T + P\<close> and to \<open>E + d\<close>. The start time and the loop's time stamps
  are not changed. The witness is the second pulse of a window: the count goes from 1
  to 2, the power sum from 3600 to 5400 and the energy from 0.001 to 0.002.
\<close>

theorem isr_accepted_update:
  assumes "\<not> dle (interval now s) SECOND_ISR_PERIOD"
    and "dTotalW s = Fin T" and "dKWh s = Fin E"
  shows "\<exists>P d.
         dPulsePeriod (isr now s) = interval now s \<and>
         (if dlt MAX_POWER (raw_power (interval now s)) then Fin 0
          else raw_power (interval now s)) = Fin P \<and>
         dPower (isr now s) = Fin P \<and>
         uiIsrCount (isr now s) = uiIsrCount s + 1 \<and>
         dTotalW (isr now s) = dadd (dTotalW s) (dPower (isr now s)) \<and>
         dTotalW (isr now s) = b64 (T + P) \<and>
         dmul (ddiv (interval now s) HOUR) (ddiv (Fin P) (Fin 1000)) = Fin d \<and>
         dKWh (isr now s) =
           dadd (dKWh s)
             (dmul (ddiv (dPulsePeriod (isr now s)) HOUR) (ddiv (dPower (isr now s)) (Fin 1000))) \<and>
         dKWh (isr now s) = b64 (E + d) \<and>
         ulStartTime (isr now s) = ulStartTime s \<and>
         ulPreviousMillis (isr now s) = ulPreviousMillis s \<and>
         ulCurrentMillis (isr now s) = ulCurrentMillis s"
proof -
  note f = isr_accepted_fields[OF assms(1)]
  obtain P where P: "(if dlt MAX_POWER (raw_power (interval now s)) then Fin 0
      else raw_power (interval now s)) = Fin P" "0 \<le> P" "P \<le> 7040"
    using stored_power[of now s] by blast
  obtain d where d: "dmul (ddiv (interval now s) HOUR) (ddiv (Fin P) (Fin 1000)) = Fin d"
    using addend_fin[OF P(2,3), of now s] by blast
  have pw: "dPower (isr now s) = Fin P" unfolding f(2) by (rule P(1))
  have t: "dTotalW (isr now s) = b64 (T + P)" unfolding f(4) pw assms(2) by simp
  have k: "dKWh (isr now s) = b64 (E + d)" unfolding f(5) pw assms(3) d by simp
  show ?thesis
    using f(1) P(1) pw f(3) f(4) t d f(5)[unfolded f(1)[symmetric]] k
      isr_start[of now s] isr_millis[of now s]
    by (intro exI[of _ P] exI[of _ d]) (simp only: f(1) simp_thms)
qed

theorem isr_accepted_update_witness:
  "\<not> dle (interval 2000 one_pulse) SECOND_ISR_PERIOD \<and>
   uiIsrCount one_pulse = 1 \<and>
   dTotalW one_pulse = Fin 3600 \<and>
   dKWh one_pulse = Fin (1152921504606847 / 1152921504606846976) \<and>
   dPulsePeriod (isr 2000 one_pulse) = Fin 2 \<and>
   dPower (isr 2000 one_pulse) = Fin 1800 \<and>
   uiIsrCount (isr 2000 one_pulse) = 2 \<and>
   dTotalW (isr 2000 one_pulse) = Fin 5400 \<and>
   dKWh (isr 2000 one_pulse) = Fin (1152921504606847 / 576460752303423488) \<and>
   ulStartTime (isr 2000 one_pulse) = 0"
proof -
  note h = second_pulse_fields(1) one_pulse_fields(2,3)
  from isr_accepted_update[OF h] obtain P d where r:
    "dPower (isr 2000 one_pulse) = Fin P"
    "uiIsrCount (isr 2000 one_pulse) = uiIsrCount one_pulse + 1"
    "dTotalW (isr 2000 one_pulse) = b64 (3600 + P)"
    "dmul (ddiv (interval 2000 one_pulse) HOUR) (ddiv (Fin P) (Fin 1000)) = Fin d"
    "dKWh (isr 2000 one_pulse) = b64 (1152921504606847 / 1152921504606846976 + d)"
    "dPulsePeriod (isr 2000 one_pulse) = interval 2000 one_pulse"
    "ulStartTime (isr 2000 one_pulse) = ulStartTime one_pulse"
    by blast
  have i: "interval 2000 one_pulse = Fin 2"
    by (simp add: one_pulse_fields of_u32_def b64_2)
  have P: "P = 1800" using r(1) second_pulse_fields(3) by simp
  have d: "d = 1152921504606847 / 1152921504606846976" using r(4) unfolding i P addend_2s by simp
  have t: "dTotalW (isr 2000 one_pulse) = Fin 5400"
    unfolding r(3) P using b64_eval[of 12 "5400" 5937362789990400] by simp
  have k: "dKWh (isr 2000 one_pulse) = Fin (1152921504606847 / 576460752303423488)"
    unfolding r(5) d using dadd_milli_milli by simp
  have pp: "dPulsePeriod (isr 2000 one_pulse) = Fin 2" using r(6) by (simp only: i)
  have pw: "dPower (isr 2000 one_pulse) = Fin 1800" using r(1) by (simp only: P)
  have c: "uiIsrCount (isr 2000 one_pulse) = 2" using r(2) by (simp add: one_pulse_fields)
  have st: "ulStartTime (isr 2000 one_pulse) = 0" using r(7) by (simp add: one_pulse_fields)
  from h(1) one_pulse_fields(1,2,3) pp pw c t k st show ?thesis by blast
qed

subsection \<open>C7: commands\<close>

text \<open>
  C7. The command byte \<open>c\<close> (0x63) sets the energy to zero and changes nothing else;
  a byte that is neither \<open>c\<close> nor \<open>r\<close> (0x72) leaves the whole state as it is. In both
  cases the callback returns normally.
\<close>

theorem callback_commands:
  "(payload 0 = 0x63 \<longrightarrow>
      callback topic payload len s = Running (s\<lparr>dKWh := Fin 0\<rparr>) \<and>
      uiIsrCount (s\<lparr>dKWh := Fin 0\<rparr>) = uiIsrCount s \<and>
      dTotalW (s\<lparr>dKWh := Fin 0\<rparr>) = dTotalW s) \<and>
   (payload 0 \<noteq> 0x63 \<and> payload 0 \<noteq> 0x72 \<longrightarrow> callback topic payload len s = Running s)"
  by (simp add: callback_def)

theorem callback_commands_witness:
  "callback ''sensors/pulseenergymonitor/cmd'' (\<lambda>i. 0x63) 1 (isr 1000 init_state) =
     Running ((isr 1000 init_state)\<lparr>dKWh := Fin 0\<rparr>) \<and>
   callback ''sensors/pulseenergymonitor/cmd'' (\<lambda>i. 0x78) 1 (isr 1000 init_state) =
     Running (isr 1000 init_state)"
  using callback_commands[of "\<lambda>i. 0x63" "''sensors/pulseenergymonitor/cmd''" 1 "isr 1000 init_state"]
    callback_commands[of "\<lambda>i. 0x78" "''sensors/pulseenergymonitor/cmd''" 1 "isr 1000 init_state"]
  by simp

subsection \<open>C8: the handler against the drain\<close>

text \<open>
  C8, as stated, fails. At the first window boundary (\<open>boundary_state\<close>, no pulse so
  far) let the handler run after the two publish statements and before the resets.
  It accepts the edge (taken alone it would leave the count at 1), but the report has
  already published the values from before the edge, and the resets that follow wipe
  the sample: count, power sum and energy end at zero. The outcome is that of neither
  order in which the handler and the report could have run one after the other.
\<close>

theorem drain_preempted_loses_sample:
  "loop 64000 (setup_init 0 init_state) = report boundary_state \<and>
   uiIsrCount (isr 64000 boundary_state) = 1 \<and>
   fst (report_preempted 4 64000 boundary_state) = [(power_topic, NaN), (kWh_topic, Fin 0)] \<and>
   uiIsrCount (snd (report_preempted 4 64000 boundary_state)) = 0 \<and>
   dTotalW (snd (report_preempted 4 64000 boundary_state)) = Fin 0 \<and>
   dKWh (snd (report_preempted 4 64000 boundary_state)) = Fin 0 \<and>
   \<not> drain_atomic 4 64000 boundary_state"
proof -
  have l: "loop 64000 (setup_init 0 init_state) = report boundary_state"
    by (simp add: loop_report boundary_state_def setup_init_def init_state_def uiUpdate_def Let_def)
  have i: "interval 64000 boundary_state = Fin 64"
    by (simp add: boundary_state_def setup_init_def init_state_def of_u32_def b64_64)
  have acc: "\<not> dle (interval 64000 boundary_state) SECOND_ISR_PERIOD"
    unfolding i by (simp add: SECOND_ISR_PERIOD_def b64_9_100)
  note f = isr_accepted_fields[OF acc]
  have c: "uiIsrCount (isr 64000 boundary_state) = 1"
    unfolding f(3) by (simp add: boundary_state_def setup_init_def init_state_def)
  have p: "dPower (isr 64000 boundary_state) = Fin (225 / 4)"
    unfolding f(2) i
    by (simp add: PULSES_KWH_RES_def HOUR_def MAX_POWER_def b64_1_64 b64_225_4)
  have t: "dTotalW (isr 64000 boundary_state) = Fin (225 / 4)"
    unfolding f(4) p
    by (simp add: boundary_state_def setup_init_def init_state_def b64_225_4)
  have out: "fst (report_preempted 4 64000 boundary_state) =
      [(power_topic, NaN), (kWh_topic, Fin 0)]"
    by (simp add: report_preempted_def report_stmts_def boundary_state_def setup_init_def
        init_state_def of_u32_def)
  have z: "uiIsrCount (snd (report_preempted 4 64000 boundary_state)) = 0"
    "dTotalW (snd (report_preempted 4 64000 boundary_state)) = Fin 0"
    "dKWh (snd (report_preempted 4 64000 boundary_state)) = Fin 0"
    by (simp_all add: report_preempted_def report_stmts_def)
  have "fst (handler_then_report 64000 boundary_state) =
      [(power_topic, Fin (225 / 4)), (kWh_topic, dKWh (isr 64000 boundary_state))]"
    by (simp add: handler_then_report_def report_def report_stmts_def t c of_u32_def b64_225_4)
  with out have n1: "report_preempted 4 64000 boundary_state \<noteq> handler_then_report 64000 boundary_state"
    by auto
  have s0: "ulStartTime (snd (report boundary_state)) = ulStartTime boundary_state"
    "uiIsrCount (snd (report boundary_state)) = 0"
    by (simp_all add: report_def report_stmts_def)
  have "\<not> dle (interval 64000 (snd (report boundary_state))) SECOND_ISR_PERIOD"
    unfolding s0(1) by (rule acc)
  from isr_accepted_fields(3)[OF this]
  have "uiIsrCount (snd (report_then_handler 64000 boundary_state)) = 1"
    by (simp add: report_then_handler_def split_beta s0(2))
  with z(1) have n2: "report_preempted 4 64000 boundary_state \<noteq> report_then_handler 64000 boundary_state"
    by auto
  from l c out z n1 n2 show ?thesis by (simp add: drain_atomic_def)
qed

text \<open>
  C8, amended. When the handler runs before the report's first read of the
  accumulator (before the report starts, or right after its first statement, which
  only moves the window reference) or after its last reset, the outcome is that of
  the handler and the report run one after the other: the report covers exactly the
  samples accepted before it, and a later sample is kept for the next window.
  Nothing is stated for a handler that runs between the read and the last reset.
\<close>

theorem drain_atomic_outside:
  assumes "k \<le> 1 \<or> length report_stmts \<le> k"
  shows "drain_atomic k t s"
proof -
  from assms consider "k = 0" | "k = Suc 0" | "length report_stmts \<le> k" by linarith
  then show ?thesis
    by cases (simp_all add: drain_atomic_def preempted_0 preempted_1 preempted_end)
qed

theorem drain_atomic_outside_witness:
  "((1::nat) \<le> 1 \<or> length report_stmts \<le> 1) \<and> drain_atomic 1 64000 boundary_state \<and>
   ((8::nat) \<le> 1 \<or> length report_stmts \<le> 8) \<and> drain_atomic 8 64000 boundary_state"
  using drain_atomic_outside[of 1 64000 boundary_state]
    drain_atomic_outside[of 8 64000 boundary_state]
  by (simp add: report_stmts_def)

subsection \<open>C9: the accumulators are never negative\<close>

text \<open>
  C9. In the initial state the count, the power sum and the energy are \<open>\<ge> 0\<close>, and
  the handler (accepted or rejected edge), the loop with its drain, and a command that
  returns all preserve that.
\<close>

theorem accumulators_nonneg:
  "acc_inv init_state \<and>
   (acc_inv s \<longrightarrow> acc_inv (isr t s)) \<and>
   (acc_inv s \<longrightarrow> acc_inv (snd (loop now s))) \<and>
   (acc_inv s \<longrightarrow> (\<forall>s'. callback topic payload len s = Running s' \<longrightarrow> acc_inv s'))"
proof -
  have "acc_inv init_state" by (simp add: acc_inv_def init_state_def)
  moreover have "acc_inv s \<longrightarrow> acc_inv (isr t s)" by (simp add: isr_acc_inv)
  moreover have "acc_inv s \<longrightarrow> acc_inv (snd (loop now s))"
    by (simp add: acc_inv_def loop_def Let_def)
  moreover have "acc_inv s \<longrightarrow> (\<forall>s'. callback topic payload len s = Running s' \<longrightarrow> acc_inv s')"
    by (auto simp: acc_inv_def callback_def split: if_splits)
  ultimately show ?thesis by blast
qed

theorem accumulators_nonneg_witness:
  "acc_inv init_state \<and>
   acc_inv (isr 1000 init_state) \<and>
   acc_inv (snd (loop 60000 init_state)) \<and>
   callback ''sensors/pulseenergymonitor/cmd'' (\<lambda>i. 0x63) 1 init_state =
     Running (init_state\<lparr>dKWh := Fin 0\<rparr>) \<and>
   acc_inv (init_state\<lparr>dKWh := Fin 0\<rparr>)"
  using accumulators_nonneg[where s = init_state and t = 1000 and now = 60000
      and topic = "''sensors/pulseenergymonitor/cmd''" and payload = "\<lambda>i. 0x63" and len = 1]
  by (simp add: callback_def)

subsection \<open>C10: the energy added by one pulse\<close>

text \<open>
  C10, as stated, fails: the handler computes in binary64, where neither the product
  nor the sum is exact. For an edge 513 ms after the start (accepted, power about
  7017.5 W, not clamped) and an energy of 0 before it, the energy afterwards is
  0.0009999999999999998, which is neither 1/1000 nor the binary64 number nearest to it.
  For a second edge at 1000 ms (accepted, 3600 W, not clamped) the amount added is the
  binary64 number nearest to 1/1000, but the energy goes from 0.0009999999999999998 to
  0.002: it changes by an amount that is neither 1/1000 nor that binary64 number.
\<close>

theorem energy_increment_at_513:
  "\<not> dle (interval 513 init_state) SECOND_ISR_PERIOD \<and>
   \<not> dlt MAX_POWER (raw_power (interval 513 init_state)) \<and>
   dKWh init_state = Fin 0 \<and>
   dKWh (isr 513 init_state) = Fin (4611686018427387 / 4611686018427387904) \<and>
   b64 (1 / 1000) = Fin (1152921504606847 / 1152921504606846976) \<and>
   dKWh (isr 513 init_state) \<noteq> Fin (1 / 1000) \<and>
   dKWh (isr 513 init_state) \<noteq> b64 (1 / 1000) \<and>
   \<not> dle (interval 1000 (isr 513 init_state)) SECOND_ISR_PERIOD \<and>
   \<not> dlt MAX_POWER (raw_power (interval 1000 (isr 513 init_state))) \<and>
   dmul (ddiv (interval 1000 (isr 513 init_state)) HOUR)
     (ddiv (raw_power (interval 1000 (isr 513 init_state))) (Fin 1000)) = b64 (1 / 1000) \<and>
   dKWh (isr 1000 (isr 513 init_state)) = Fin (1152921504606847 / 576460752303423488) \<and>
   1152921504606847 / 576460752303423488 - 4611686018427387 / 4611686018427387904 \<noteq> (1 / 1000 :: rat) \<and>
   1152921504606847 / 576460752303423488 - 4611686018427387 / 4611686018427387904 \<noteq> (1152921504606847 / 1152921504606846976 :: rat)"
proof -
  have i: "interval 513 init_state = Fin (4620693217682129 / 9007199254740992)"
    using b64_eval[of "- 1" "513 / 1000" 4620693217682129] by (simp add: init_state_def of_u32_def)
  have acc: "\<not> dle (interval 513 init_state) SECOND_ISR_PERIOD"
    unfolding i by (simp add: SECOND_ISR_PERIOD_def b64_9_100)
  have a: "ddiv PULSES_KWH_RES (Fin (4620693217682129 / 9007199254740992)) = Fin (4389473321023875 / 2251799813685248)"
    using b64_eval[of 0 "1 / (4620693217682129 / 9007199254740992)" 8778946642047750] by (simp add: PULSES_KWH_RES_def)
  have p: "raw_power (Fin (4620693217682129 / 9007199254740992)) = Fin (964483884014035 / 137438953472)"
    unfolding a using b64_eval[of 12 "4389473321023875 / 2251799813685248 * 3600" 7715871072112280] by (simp add: HOUR_def)
  have nc: "\<not> dlt MAX_POWER (raw_power (interval 513 init_state))"
    unfolding i p by (simp add: MAX_POWER_def)
  note f = isr_accepted_fields[OF acc]
  have pw: "dPower (isr 513 init_state) = Fin (964483884014035 / 137438953472)"
    unfolding f(2) using nc by (simp only: i p if_False)
  have t1: "ddiv (Fin (4620693217682129 / 9007199254740992)) HOUR = Fin (2628661030503611 / 18446744073709551616)"
    using b64_eval[of "- 13" "4620693217682129 / 9007199254740992 / 3600" 5257322061007222] by (simp add: HOUR_def)
  have t2: "ddiv (Fin (964483884014035 / 137438953472)) (Fin 1000) = Fin (7901051977842975 / 1125899906842624)"
    using b64_eval[of 2 "964483884014035 / 137438953472 / 1000" 7901051977842975] by simp
  have d: "dmul (Fin (2628661030503611 / 18446744073709551616)) (Fin (7901051977842975 / 1125899906842624)) = Fin (4611686018427387 / 4611686018427387904)"
    using b64_eval[of "- 10" "2628661030503611 / 18446744073709551616 * (7901051977842975 / 1125899906842624)" 4611686018427387] by simp
  have k0: "dKWh init_state = Fin 0" by (simp add: init_state_def)
  have s: "dadd (Fin 0) (Fin (4611686018427387 / 4611686018427387904)) = Fin (4611686018427387 / 4611686018427387904)"
    using b64_eval[of "- 10" "4611686018427387 / 4611686018427387904" 4611686018427387] by simp
  have k: "dKWh (isr 513 init_state) = Fin (4611686018427387 / 4611686018427387904)"
    unfolding f(5) pw i t1 t2 d k0 by (rule s)
  have m: "b64 (1 / 1000) = Fin (1152921504606847 / 1152921504606846976)"
    using b64_eval[of "- 10" "1 / 1000" 4611686018427388] by simp
  have i2: "interval 1000 (isr 513 init_state) = Fin 1"
    by (simp add: isr_start init_state_def of_u32_def b64_1)
  have acc2: "\<not> dle (interval 1000 (isr 513 init_state)) SECOND_ISR_PERIOD"
    unfolding i2 by (rule accepts_1s)
  have nc1: "\<not> dlt MAX_POWER (Fin 3600)" by (simp add: MAX_POWER_def)
  have nc2: "\<not> dlt MAX_POWER (raw_power (interval 1000 (isr 513 init_state)))"
    unfolding i2 raw_power_1s by (rule nc1)
  have a2: "dmul (ddiv (interval 1000 (isr 513 init_state)) HOUR)
     (ddiv (raw_power (interval 1000 (isr 513 init_state))) (Fin 1000)) = b64 (1 / 1000)"
    unfolding i2 raw_power_1s addend_1s m ..
  have k2: "dKWh (isr 1000 (isr 513 init_state)) = Fin (1152921504606847 / 576460752303423488)"
    unfolding isr_eval(5)[OF i2 accepts_1s raw_power_1s nc1] addend_1s k
    by (rule dadd_below_milli)
  have first: "dKWh (isr 513 init_state) \<noteq> Fin (1 / 1000)"
    "dKWh (isr 513 init_state) \<noteq> b64 (1 / 1000)"
    unfolding k m by simp_all
  from acc nc k0 k m first acc2 nc2 a2 k2 show ?thesis by simp
qed

text \<open>
  C10, amended. For every accepted edge whose derived power is not clamped, and an
  energy \<open>E\<close> before it that is finite and not negative (at most \<open>2 powi 1000\<close>), the
  energy after it differs from \<open>E + 1/1000\<close> by at most \<open>2 powi (- 53) * E\<close> plus
  \<open>2 powi (- 49) / 1000\<close>: the energy increases by 1/1000 kWh up to the binary64
  rounding of the product and of the sum, whatever the interval.
\<close>

theorem energy_increment_rounded:
  assumes "\<not> dle (interval now s) SECOND_ISR_PERIOD"
    and "\<not> dlt MAX_POWER (raw_power (interval now s))"
    and "dKWh s = Fin E" and "0 \<le> E" and "E \<le> 2 powi 1000"
  shows "\<exists>E'. dKWh (isr now s) = Fin E' \<and>
              \<bar>E' - E - 1 / 1000\<bar> \<le> 2 powi (- 53) * E + 2 powi (- 49) / 1000"
proof -
  note f = isr_accepted_fields[OF assms(1)]
  obtain yi where yi: "interval now s = Fin yi" "rng 24 yi"
    using accepted_interval_rng[OF assms(1)] by blast
  obtain d where d: "dmul (ddiv (Fin yi) HOUR) (ddiv (raw_power (Fin yi)) (Fin 1000)) = Fin d"
    "near 5 d (1 / 1000)"
    using increment_chain[OF yi(2)] by blast
  have "dPower (isr now s) = raw_power (Fin yi)"
    unfolding f(2) using assms(2) by (simp only: yi(1) if_False)
  then have k: "dKWh (isr now s) = b64 (E + d)"
    unfolding f(5) assms(3) by (simp only: yi(1) d(1) dadd.simps)
  define e53 e50 :: rat where "e53 = 2 powi (- 53)" and "e50 = 2 powi (- 50)"
  have e: "0 < e53" "e50 = 8 * e53" "e53 \<le> 1"
    by (simp_all add: e53_def e50_def)
  have dn: "\<bar>d * 1000 - 1\<bar> \<le> e50" unfolding e50_def by (rule near_5_bound[OF d(2)])
  have "e50 \<le> 1 / 2" by (simp add: e50_def)
  with dn have db: "1 / 2000 \<le> d" "d \<le> 2 / 1000" by linarith+
  have "(2::rat) powi (- 1022) \<le> 2 powi (- 11)" by (rule powi2_mono) simp
  also have "\<dots> \<le> 1 / 2000" by simp
  finally have lo: "2 powi (- 1022) \<le> E + d" using db(1) assms(4) by linarith
  have "(2::rat) powi 1000 + 1 < 2 powi 1023" by simp
  with assms(5) db(2) have hi: "E + d < 2 powi 1023" by linarith
  obtain E' where E': "b64 (E + d) = Fin E'" "\<bar>E' - (E + d)\<bar> \<le> (E + d) * 2 powi (- 53)"
    by (rule b64_normal[OF lo hi])
  have r: "\<bar>E' - (E + d)\<bar> \<le> E * e53 + d * e53"
    using E'(2) by (simp add: e53_def distrib_right)
  have "d * e53 \<le> 2 / 1000 * e53" using db(2) e(1) by (intro mult_right_mono) simp_all
  with r dn e(2) have "\<bar>E' - E - 1 / 1000\<bar> \<le> e53 * E + 2 * e50 / 1000"
    by (simp add: mult.commute)
  moreover have "2 * e50 = 2 powi (- 49)" by (simp add: e50_def)
  ultimately have "\<bar>E' - E - 1 / 1000\<bar> \<le> 2 powi (- 53) * E + 2 powi (- 49) / 1000"
    by (simp only: e53_def)
  with k E'(1) show ?thesis by simp
qed

theorem energy_increment_rounded_witness:
  "\<not> dle (interval 2000 one_pulse) SECOND_ISR_PERIOD \<and>
   \<not> dlt MAX_POWER (raw_power (interval 2000 one_pulse)) \<and>
   dKWh one_pulse = Fin (1152921504606847 / 1152921504606846976) \<and>
   dKWh (isr 2000 one_pulse) = Fin (1152921504606847 / 576460752303423488) \<and>
   \<bar>1152921504606847 / 576460752303423488 - 1152921504606847 / 1152921504606846976 - 1 / 1000\<bar>
     \<le> 2 powi (- 53) * (1152921504606847 / 1152921504606846976) + 2 powi (- 49) / (1000 :: rat)"
proof -
  have i: "interval 2000 one_pulse = Fin 2"
    by (simp add: one_pulse_fields of_u32_def b64_2)
  have nc: "\<not> dlt MAX_POWER (raw_power (interval 2000 one_pulse))"
    unfolding i raw_power_2s by (simp add: MAX_POWER_def)
  have b: "(0::rat) \<le> 1152921504606847 / 1152921504606846976" "1152921504606847 / 1152921504606846976 \<le> (2::rat) powi 1000"
    by simp_all
  from energy_increment_rounded[OF second_pulse_fields(1) nc one_pulse_fields(3) b]
  obtain E' where E': "dKWh (isr 2000 one_pulse) = Fin E'"
    "\<bar>E' - 1152921504606847 / 1152921504606846976 - 1 / 1000\<bar>
      \<le> 2 powi (- 53) * (1152921504606847 / 1152921504606846976) + 2 powi (- 49) / 1000"
    by blast
  from E'(1) second_pulse_fields(6) have "E' = 1152921504606847 / 576460752303423488" by simp
  with E' second_pulse_fields(1) nc one_pulse_fields(3) show ?thesis by simp
qed

end
